theory Spec2Isabelle
  imports Main "HOL-Library.Word"
begin

text \<open>
  A shallow embedding of simplycall, a typed remote procedure call layer in
  TypeScript: the router with its registry and dispatcher (src/index.ts) and the
  HTTP transport that carries a call as a multipart form (src/transports/http).
  Functions of the source are HOL functions of the same name; a promise is the
  value it settles to, a thrown error is a value of a sum type, and the registry,
  which the source mutates, is passed in and returned.
\<close>

section \<open>JavaScript values\<close>

text \<open>
  The router handles values of type \<^verbatim>\<open>unknown\<close>. The model keeps the values the
  code distinguishes: \<^verbatim>\<open>undefined\<close>, the JSON values, \<^verbatim>\<open>Blob\<close> objects (a
  \<^verbatim>\<open>File\<close> is a \<^verbatim>\<open>Blob\<close>; only the bytes are kept) and \<^verbatim>\<open>Error\<close> objects
  (constructor name and message). Numbers are the integers; strings are lists of
  code units below 256; an object is the list of its own enumerable properties in
  enumeration order.
\<close>

type_synonym byte = "8 word"

datatype jsval =
    JUndefined
  | JNull
  | JBool bool
  | JNum int
  | JStr string
  | JArr "jsval list"
  | JObj "(string \<times> jsval) list"
  | JBlob "byte list"
  | JError string string

text \<open>The outcome of an \<^verbatim>\<open>async\<close> function: its promise fulfils or rejects.\<close>

datatype 'a promise = Fulfilled 'a | Rejected jsval

section \<open>Platform functions the code calls\<close>

text \<open>
  \<^verbatim>\<open>JSON.stringify\<close>, \<^verbatim>\<open>JSON.parse\<close> and the rendering of numbers in template
  literals are built into the language. They are modelled after ECMAScript 2024
  (sections 6.1.6.1.20 and 25.5) on the values of the model, and agree with the
  language on the safe integers (below \<open>2\<^sup>5\<^sup>3\<close> in absolute value) and on strings of
  code units below 256 only: the model has no other numbers and no other code
  units. The statements below that mention them hold for any serializer and parser
  or are evaluated inside these limits.
\<close>

subsection \<open>Numbers in decimal\<close>

text \<open>
  \<^verbatim>\<open>`${i}`\<close> for an array index \<open>i\<close>, and the digits of a number in JSON. The
  language writes a number in plain digits below \<open>10\<^sup>2\<^sup>1\<close> and with an exponent from
  there on; \<open>numberToString\<close> writes plain digits throughout.
\<close>

definition digit :: "nat \<Rightarrow> char" where
  "digit d = char_of (48 + d)"

fun showNat :: "nat \<Rightarrow> string" where
  "showNat n = (if n < 10 then [digit n] else showNat (n div 10) @ [digit (n mod 10)])"

declare showNat.simps [simp del]

definition numberToString :: "int \<Rightarrow> string" where
  "numberToString n = (if n < 0 then CHR ''-'' # showNat (nat (- n)) else showNat (nat n))"

subsection \<open>\<^verbatim>\<open>JSON.stringify\<close>\<close>

text \<open>
  \<^verbatim>\<open>QuoteJSONString\<close>: the quotation mark, the reverse solidus and the code units
  below 0x20 are escaped, the latter with the short escapes where there is one and
  in the form \<^verbatim>\<open>\u00xx\<close>, in lowercase, otherwise.
\<close>

definition hexDigit :: "nat \<Rightarrow> char" where
  "hexDigit d = (if d < 10 then char_of (48 + d) else char_of (87 + d))"

definition quoteChar :: "char \<Rightarrow> string" where
  "quoteChar c =
     (if c = CHR 0x08 then [CHR 0x5C, CHR ''b'']
      else if c = CHR 0x09 then [CHR 0x5C, CHR ''t'']
      else if c = CHR 0x0A then [CHR 0x5C, CHR ''n'']
      else if c = CHR 0x0C then [CHR 0x5C, CHR ''f'']
      else if c = CHR 0x0D then [CHR 0x5C, CHR ''r'']
      else if c = CHR 0x22 then [CHR 0x5C, CHR 0x22]
      else if c = CHR 0x5C then [CHR 0x5C, CHR 0x5C]
      else if of_char c < (32 :: nat)
        then [CHR 0x5C, CHR ''u'', CHR ''0'', CHR ''0'',
              hexDigit (of_char c div 16), hexDigit (of_char c mod 16)]
      else [c])"

definition quoteJSONString :: "string \<Rightarrow> string" where
  "quoteJSONString s = CHR 0x22 # concat (map quoteChar s) @ [CHR 0x22]"

text \<open>
  \<^verbatim>\<open>SerializeJSONProperty\<close> without replacer, \<^verbatim>\<open>toJSON\<close> or indentation. The result
  is \<^verbatim>\<open>undefined\<close> (\<open>None\<close>) for \<^verbatim>\<open>undefined\<close>; inside an array \<^verbatim>\<open>undefined\<close>
  is written \<^verbatim>\<open>null\<close>, and a property whose value is \<^verbatim>\<open>undefined\<close> is left out.
  A \<^verbatim>\<open>Blob\<close> and an \<^verbatim>\<open>Error\<close> have no enumerable own property.
\<close>

fun joinComma :: "string list \<Rightarrow> string" where
  "joinComma [] = []"
| "joinComma [x] = x"
| "joinComma (x # y # ys) = x @ '','' @ joinComma (y # ys)"

fun serializeJSONProperty :: "jsval \<Rightarrow> string option"
  and serializeJSONArray :: "jsval list \<Rightarrow> string list"
  and serializeJSONObject :: "(string \<times> jsval) list \<Rightarrow> string list" where
  "serializeJSONProperty JUndefined = None"
| "serializeJSONProperty JNull = Some ''null''"
| "serializeJSONProperty (JBool b) = Some (if b then ''true'' else ''false'')"
| "serializeJSONProperty (JNum n) = Some (numberToString n)"
| "serializeJSONProperty (JStr s) = Some (quoteJSONString s)"
| "serializeJSONProperty (JArr xs) = Some (''['' @ joinComma (serializeJSONArray xs) @ '']'')"
| "serializeJSONProperty (JObj ps) = Some (''{'' @ joinComma (serializeJSONObject ps) @ ''}'')"
| "serializeJSONProperty (JBlob b) = Some ''{}''"
| "serializeJSONProperty (JError n m) = Some ''{}''"
| "serializeJSONArray [] = []"
| "serializeJSONArray (x # xs) =
     (case serializeJSONProperty x of None \<Rightarrow> ''null'' | Some s \<Rightarrow> s) # serializeJSONArray xs"
| "serializeJSONObject [] = []"
| "serializeJSONObject ((k, v) # ps) =
     (case serializeJSONProperty v of
        None \<Rightarrow> serializeJSONObject ps
      | Some s \<Rightarrow> (quoteJSONString k @ '':'' @ s) # serializeJSONObject ps)"

definition JSON_stringify :: "jsval \<Rightarrow> string option" where
  "JSON_stringify v = serializeJSONProperty v"

subsection \<open>\<^verbatim>\<open>JSON.parse\<close>\<close>

text \<open>
  A recursive-descent parser of the JSON grammar without reviver. Where the model
  has no value for what the language reads, the parser rejects the text like a
  syntax error: a numeral with a fraction or an exponent, and a \<^verbatim>\<open>\uXXXX\<close> escape
  of 0x0100 or more. It keeps an integer beyond the safe integers exact, where the
  language rounds, and keeps the members of an object in the order of the text,
  where the language lists integer-like keys first.
\<close>

definition isWhiteSpace :: "char \<Rightarrow> bool" where
  "isWhiteSpace c \<longleftrightarrow> c = CHR '' '' \<or> c = CHR 0x09 \<or> c = CHR 0x0A \<or> c = CHR 0x0D"

definition skipWhiteSpace :: "string \<Rightarrow> string" where
  "skipWhiteSpace s = dropWhile isWhiteSpace s"

definition isDigit :: "char \<Rightarrow> bool" where
  "isDigit c \<longleftrightarrow> (48 :: nat) \<le> of_char c \<and> of_char c \<le> (57 :: nat)"

definition digitsValue :: "string \<Rightarrow> nat" where
  "digitsValue ds = foldl (\<lambda>a c. 10 * a + (of_char c - 48)) 0 ds"

definition parseUnsigned :: "string \<Rightarrow> (nat \<times> string) option" where
  "parseUnsigned s =
     (let ds = takeWhile isDigit s; rest = dropWhile isDigit s in
      if ds = [] \<or> (1 < length ds \<and> hd ds = CHR ''0'') then None
      else if rest \<noteq> [] \<and> hd rest \<in> {CHR ''.'', CHR ''e'', CHR ''E''} then None
      else Some (digitsValue ds, rest))"

definition parseNumber :: "string \<Rightarrow> (jsval \<times> string) option" where
  "parseNumber s =
     (case s of
        [] \<Rightarrow> None
      | c # cs \<Rightarrow>
          if c = CHR ''-''
          then map_option (\<lambda>(n, rest). (JNum (- int n), rest)) (parseUnsigned cs)
          else map_option (\<lambda>(n, rest). (JNum (int n), rest)) (parseUnsigned s))"

definition hexValue :: "char \<Rightarrow> nat option" where
  "hexValue c =
     (let n = of_char c :: nat in
      if 48 \<le> n \<and> n \<le> 57 then Some (n - 48)
      else if 97 \<le> n \<and> n \<le> 102 then Some (n - 87)
      else if 65 \<le> n \<and> n \<le> 70 then Some (n - 55)
      else None)"

definition unicodeEscape :: "char \<Rightarrow> char \<Rightarrow> char \<Rightarrow> char \<Rightarrow> char option" where
  "unicodeEscape h1 h2 h3 h4 =
     (case (hexValue h1, hexValue h2, hexValue h3, hexValue h4) of
        (Some a, Some b, Some c, Some d) \<Rightarrow>
          (let n = ((a * 16 + b) * 16 + c) * 16 + d in
           if n < 256 then Some (char_of n) else None)
      | _ \<Rightarrow> None)"

definition simpleEscape :: "char \<Rightarrow> char option" where
  "simpleEscape e =
     (if e = CHR 0x22 \<or> e = CHR 0x5C \<or> e = CHR ''/'' then Some e
      else if e = CHR ''b'' then Some (CHR 0x08)
      else if e = CHR ''f'' then Some (CHR 0x0C)
      else if e = CHR ''n'' then Some (CHR 0x0A)
      else if e = CHR ''r'' then Some (CHR 0x0D)
      else if e = CHR ''t'' then Some (CHR 0x09)
      else None)"

text \<open>The characters of a string up to the closing quotation mark, and what follows it.\<close>

definition consChar :: "char \<Rightarrow> (string \<times> string) option \<Rightarrow> (string \<times> string) option" where
  "consChar c r = map_option (\<lambda>(s, rest). (c # s, rest)) r"

fun parseStringChars :: "string \<Rightarrow> (string \<times> string) option" where
  "parseStringChars [] = None"
| "parseStringChars (c # cs) =
     (if c = CHR 0x22 then Some ([], cs)
      else if c = CHR 0x5C then
        (case cs of
           [] \<Rightarrow> None
         | e # cs1 \<Rightarrow>
             if e = CHR ''u'' then
               (case cs1 of
                  h1 # h2 # h3 # h4 # cs2 \<Rightarrow>
                    (case unicodeEscape h1 h2 h3 h4 of
                       None \<Rightarrow> None
                     | Some u \<Rightarrow> consChar u (parseStringChars cs2))
                | _ \<Rightarrow> None)
             else
               (case simpleEscape e of
                  None \<Rightarrow> None
                | Some u \<Rightarrow> consChar u (parseStringChars cs1)))
      else if of_char c < (32 :: nat) then None
      else consChar c (parseStringChars cs))"

text \<open>White space, then the given character.\<close>

definition expect :: "char \<Rightarrow> string \<Rightarrow> string option" where
  "expect c s = (case skipWhiteSpace s of [] \<Rightarrow> None | d # rest \<Rightarrow> if d = c then Some rest else None)"

fun stripPrefix :: "string \<Rightarrow> string \<Rightarrow> string option" where
  "stripPrefix [] s = Some s"
| "stripPrefix (p # ps) [] = None"
| "stripPrefix (p # ps) (c # cs) = (if p = c then stripPrefix ps cs else None)"

definition literal :: "string \<Rightarrow> jsval \<Rightarrow> string \<Rightarrow> (jsval \<times> string) option" where
  "literal word v s = map_option (\<lambda>rest. (v, rest)) (stripPrefix word s)"

text \<open>
  \<^verbatim>\<open>CreateDataProperty\<close> on the object under construction: a repeated key keeps its
  place and takes the later value.
\<close>

fun setProperty :: "string \<Rightarrow> jsval \<Rightarrow> (string \<times> jsval) list \<Rightarrow> (string \<times> jsval) list" where
  "setProperty k v [] = [(k, v)]"
| "setProperty k v ((k', v') # ps) =
     (if k' = k then (k', v) # ps else (k', v') # setProperty k v ps)"

text \<open>
  Each call consumes one unit of fuel, and a text has at least one character for
  each nested call that reads it, so \<^verbatim>\<open>JSON.parse\<close> starts with the length of the
  text.
\<close>

fun parseValue :: "nat \<Rightarrow> string \<Rightarrow> (jsval \<times> string) option"
  and parseElements :: "nat \<Rightarrow> string \<Rightarrow> (jsval list \<times> string) option"
  and parseMembers :: "nat \<Rightarrow> string \<Rightarrow> ((string \<times> jsval) list \<times> string) option" where
  "parseValue 0 s = None"
| "parseValue (Suc fuel) s =
     (case skipWhiteSpace s of
        [] \<Rightarrow> None
      | c # cs \<Rightarrow>
          if c = CHR ''['' then
            (case expect CHR '']'' cs of
               Some rest \<Rightarrow> Some (JArr [], rest)
             | None \<Rightarrow> map_option (\<lambda>(vs, rest). (JArr vs, rest)) (parseElements fuel cs))
          else if c = CHR ''{'' then
            (case expect CHR ''}'' cs of
               Some rest \<Rightarrow> Some (JObj [], rest)
             | None \<Rightarrow>
                 map_option (\<lambda>(ps, rest). (JObj (foldl (\<lambda>obj (k, v). setProperty k v obj) [] ps), rest))
                   (parseMembers fuel cs))
          else if c = CHR 0x22 then
            map_option (\<lambda>(str, rest). (JStr str, rest)) (parseStringChars cs)
          else if c = CHR ''n'' then literal ''null'' JNull (c # cs)
          else if c = CHR ''t'' then literal ''true'' (JBool True) (c # cs)
          else if c = CHR ''f'' then literal ''false'' (JBool False) (c # cs)
          else parseNumber (c # cs))"
| "parseElements 0 s = None"
| "parseElements (Suc fuel) s =
     (case parseValue fuel s of
        None \<Rightarrow> None
      | Some (v, rest) \<Rightarrow>
          (case expect CHR '','' rest of
             Some rest1 \<Rightarrow> map_option (\<lambda>(vs, rest2). (v # vs, rest2)) (parseElements fuel rest1)
           | None \<Rightarrow> map_option (\<lambda>rest1. ([v], rest1)) (expect CHR '']'' rest)))"
| "parseMembers 0 s = None"
| "parseMembers (Suc fuel) s =
     (case expect (CHR 0x22) s of
        None \<Rightarrow> None
      | Some cs \<Rightarrow>
          (case parseStringChars cs of
             None \<Rightarrow> None
           | Some (k, rest) \<Rightarrow>
               (case expect CHR '':'' rest of
                  None \<Rightarrow> None
                | Some rest1 \<Rightarrow>
                    (case parseValue fuel rest1 of
                       None \<Rightarrow> None
                     | Some (v, rest2) \<Rightarrow>
                         (case expect CHR '','' rest2 of
                            Some rest3 \<Rightarrow>
                              map_option (\<lambda>(ps, rest4). ((k, v) # ps, rest4)) (parseMembers fuel rest3)
                          | None \<Rightarrow> map_option (\<lambda>rest3. ([(k, v)], rest3)) (expect CHR ''}'' rest2))))))"

definition syntaxError :: jsval where
  "syntaxError = JError ''SyntaxError'' ''Unexpected token in JSON''"

definition JSON_parse :: "string \<Rightarrow> jsval + jsval" where
  "JSON_parse text =
     (case parseValue (length text) text of
        None \<Rightarrow> Inl syntaxError
      | Some (v, rest) \<Rightarrow> if skipWhiteSpace rest = [] then Inr v else Inl syntaxError)"

section \<open>The router (src/index.ts)\<close>

text \<open>
  A parser or handler is called with a receiver. All the code can read from the
  receiver is \<^verbatim>\<open>this[ctx]\<close>: the model passes that slot, \<open>Some c\<close> when the
  receiver object has the \<^verbatim>\<open>ctx\<close> symbol as a property with value \<open>c\<close>, and
  \<open>None\<close> when it has no such property (\<^verbatim>\<open>this[ctx]\<close> is \<^verbatim>\<open>undefined\<close>).

  A parser returns the parsed arguments (\<open>Inr\<close>) or throws (\<open>Inl\<close>). A handler
  call returns a promise that resolves or rejects, or throws before returning one
  (a function that is not \<^verbatim>\<open>async\<close> has the type \<^verbatim>\<open>(...) => Promise<unknown>\<close> too).
\<close>

type_synonym 'c receiver = "'c option"

type_synonym 'c parser = "'c receiver \<Rightarrow> jsval list \<Rightarrow> jsval + jsval list"

datatype completion = Resolves jsval | Rejects jsval | Throws jsval

type_synonym 'c handler = "'c receiver \<Rightarrow> jsval list \<Rightarrow> completion"

text \<open>
  An entry of \<^verbatim>\<open>routes\<close>. \<^verbatim>\<open>handlers[name]\<close> is \<^verbatim>\<open>undefined\<close> when the
  handlers object has no such key, hence the option. (The handlers object is
  modelled by its own properties.)
\<close>

record 'c route =
  parser :: "'c parser"
  handler :: "'c handler option"

type_synonym 'c routes = "string \<rightharpoonup> 'c route"

text \<open>
  \<^verbatim>\<open>routes\<close> is created as the object literal \<^verbatim>\<open>{}\<close>, so its prototype is
  \<^verbatim>\<open>Object.prototype\<close>: both \<^verbatim>\<open>id in routes\<close> and \<^verbatim>\<open>routes[id]\<close> also find
  the properties inherited from there. These are their names (ECMAScript 2024,
  20.1.3 and B.2.2); the value of each is a function or, for \<^verbatim>\<open>__proto__\<close>,
  \<^verbatim>\<open>Object.prototype\<close> itself, so all of them are truthy and none has a property
  \<^verbatim>\<open>parser\<close>.
\<close>

definition objectPrototypeKeys :: "string list" where
  "objectPrototypeKeys =
     [''constructor'', ''hasOwnProperty'', ''isPrototypeOf'', ''propertyIsEnumerable'',
      ''toLocaleString'', ''toString'', ''valueOf'', ''__proto__'',
      ''__defineGetter__'', ''__defineSetter__'', ''__lookupGetter__'', ''__lookupSetter__'']"

text \<open>\<^verbatim>\<open>id in boundThis.routes\<close>\<close>

definition inRoutes :: "string \<Rightarrow> 'c routes \<Rightarrow> bool" where
  "inRoutes i routes \<longleftrightarrow> routes i \<noteq> None \<or> i \<in> set objectPrototypeKeys"

text \<open>\<^verbatim>\<open>this.routes[rpc.id]\<close>: an own entry, an inherited value, or \<^verbatim>\<open>undefined\<close>.\<close>

datatype 'c lookup = Own "'c route" | Inherited | Absent

definition getRoute :: "'c routes \<Rightarrow> string \<Rightarrow> 'c lookup" where
  "getRoute routes i =
     (case routes i of
        Some r \<Rightarrow> Own r
      | None \<Rightarrow> if i \<in> set objectPrototypeKeys then Inherited else Absent)"

subsection \<open>Registration: \<^verbatim>\<open>on(scope).with(handlers).conformArgumentsThrough(parsers)\<close>\<close>

datatype 'c parserSpec = AssumeTypesafe | Parser "'c parser"

text \<open>\<^verbatim>\<open>`${scope} ${name}`\<close>\<close>

definition routeId :: "string \<Rightarrow> string \<Rightarrow> string" where
  "routeId scope name = scope @ '' '' @ name"

text \<open>\<^verbatim>\<open>parsers[name] === "assume typesafe" ? (...args) => args : parsers[name]\<close>\<close>

fun toParser :: "'c parserSpec \<Rightarrow> 'c parser" where
  "toParser AssumeTypesafe = (\<lambda>this args. Inr args)"
| "toParser (Parser p) = p"

text \<open>
  The loop over \<^verbatim>\<open>Object.keys(parsers)\<close>; \<open>parsers\<close> lists the properties of the
  parsers object in that order. The registry is mutated in place, so the function
  returns the registry as the loop leaves it, with the thrown error if there is one.
\<close>

fun conformArgumentsThrough ::
  "string \<Rightarrow> (string \<rightharpoonup> 'c handler) \<Rightarrow> (string \<times> 'c parserSpec) list \<Rightarrow> 'c routes
     \<Rightarrow> jsval option \<times> 'c routes" where
  "conformArgumentsThrough scope handlers [] routes = (None, routes)"
| "conformArgumentsThrough scope handlers ((name, p) # parsers) routes =
     (if inRoutes (routeId scope name) routes
      then (Some (JError ''Error''
                    (''Route ['' @ routeId scope name @ ''] was declared twice and is not unique.'')),
            routes)
      else conformArgumentsThrough scope handlers parsers
             (routes(routeId scope name \<mapsto> \<lparr>parser = toParser p, handler = handlers name\<rparr>)))"

subsection \<open>Dispatch: \<^verbatim>\<open>routeFromTransportInfallibly\<close>\<close>

record 'c rpc =
  ctx :: 'c
  rpc_id :: string
  args :: "jsval list"

datatype routeError =
    NonExistentRoute string
  | ArgumentParsingFailed jsval
  | HandlerErrored jsval

text \<open>\<^verbatim>\<open>{ ok: ... }\<close> or \<^verbatim>\<open>{ err: ... }\<close>\<close>

datatype ('e, 'a) result = Err 'e | Ok 'a

type_synonym routeResult = "(routeError, jsval) result"

text \<open>The calls the dispatcher makes, in order, each with its receiver and arguments.\<close>

datatype 'c event =
    ParserCalled "'c receiver" "jsval list"
  | HandlerCalled "'c receiver" "jsval list"

text \<open>
  What calling \<^verbatim>\<open>undefined\<close> and reading a property of \<^verbatim>\<open>undefined\<close> throw; the
  messages are the engine's.
\<close>

definition notAFunction :: "string \<Rightarrow> jsval" where
  "notAFunction what = JError ''TypeError'' (what @ '' is not a function'')"

definition cannotRead :: "string \<Rightarrow> jsval" where
  "cannotRead what =
     JError ''TypeError''
       (''Cannot read properties of undefined (reading '' @ [CHR 0x27] @ what @ [CHR 0x27] @ '')'')"

text \<open>
  \<^verbatim>\<open>route.parser(...rpc.args)\<close> is a method call on \<^verbatim>\<open>route\<close>: the receiver is the
  entry \<^verbatim>\<open>{ parser, handler }\<close>, which has no \<^verbatim>\<open>ctx\<close> property.
  \<^verbatim>\<open>route.handler.call({ [ctx]: rpc.ctx }, ...args)\<close> passes the context.
  Only the parser call is inside \<^verbatim>\<open>try\<close>; the handler's promise is guarded by
  \<^verbatim>\<open>.then(...).catch(...)\<close>, which a throw of the call itself never reaches.
\<close>

definition routeFromTransportInfallibly ::
  "'c routes \<Rightarrow> 'c rpc \<Rightarrow> routeResult promise \<times> 'c event list" where
  "routeFromTransportInfallibly routes rpc =
     (case getRoute routes (rpc_id rpc) of
        Absent \<Rightarrow>
          (Fulfilled (Err (NonExistentRoute (''Route ['' @ rpc_id rpc @ ''] does not exist!''))), [])
      | Inherited \<Rightarrow>
          (Fulfilled (Err (ArgumentParsingFailed (notAFunction ''route.parser''))), [])
      | Own route \<Rightarrow>
          (case parser route None (args rpc) of
             Inl error \<Rightarrow>
               (Fulfilled (Err (ArgumentParsingFailed error)), [ParserCalled None (args rpc)])
           | Inr args' \<Rightarrow>
               (case handler route of
                  None \<Rightarrow> (Rejected (cannotRead ''call''), [ParserCalled None (args rpc)])
                | Some h \<Rightarrow>
                    (case h (Some (ctx rpc)) args' of
                       Throws e \<Rightarrow> Rejected e
                     | Rejects err \<Rightarrow> Fulfilled (Err (HandlerErrored err))
                     | Resolves ok \<Rightarrow> Fulfilled (Ok ok),
                     [ParserCalled None (args rpc), HandlerCalled (Some (ctx rpc)) args']))))"

section \<open>The HTTP transport\<close>

subsection \<open>\<^verbatim>\<open>FormData\<close>, requests and responses\<close>

text \<open>
  A \<^verbatim>\<open>FormData\<close> is a list of entries; an entry value is a string or a \<^verbatim>\<open>File\<close>
  (a \<^verbatim>\<open>Blob\<close> given to \<^verbatim>\<open>set\<close> is stored as a \<^verbatim>\<open>File\<close> with the same bytes).
  \<^verbatim>\<open>get\<close> returns the first entry of that name or \<^verbatim>\<open>null\<close>; \<^verbatim>\<open>set\<close> replaces the
  first entry of that name and removes the others, or appends.
\<close>

datatype entry = EString string | EFile "byte list"

type_synonym formdata = "(string \<times> entry) list"

definition formData_get :: "formdata \<Rightarrow> string \<Rightarrow> entry option" where
  "formData_get fd name = map_of fd name"

fun formData_set :: "formdata \<Rightarrow> string \<Rightarrow> entry \<Rightarrow> formdata" where
  "formData_set [] name v = [(name, v)]"
| "formData_set ((n, e) # fd) name v =
     (if n = name then (name, v) # filter (\<lambda>(k, _). k \<noteq> name) fd
      else (n, e) # formData_set fd name v)"

text \<open>\<^verbatim>\<open>!data\<close> for the result of \<^verbatim>\<open>get\<close>: \<^verbatim>\<open>null\<close> and the empty string are falsy.\<close>

fun missing :: "entry option \<Rightarrow> bool" where
  "missing None = True"
| "missing (Some (EString s)) = (s = [])"
| "missing (Some (EFile b)) = False"

text \<open>An entry as a value (\<^verbatim>\<open>args.push(data)\<close>) and as a string (\<^verbatim>\<open>data.toString()\<close>).\<close>

fun entryValue :: "entry \<Rightarrow> jsval" where
  "entryValue (EString s) = JStr s"
| "entryValue (EFile b) = JBlob b"

fun entryToString :: "entry \<Rightarrow> string" where
  "entryToString (EString s) = s"
| "entryToString (EFile b) = ''[object File]''"

text \<open>\<^verbatim>\<open>arg instanceof Blob\<close>\<close>

fun isBlob :: "jsval \<Rightarrow> bool" where
  "isBlob (JBlob b) = True"
| "isBlob v = False"

text \<open>
  \<^verbatim>\<open>arg instanceof Blob ? arg : JSON.stringify(arg)\<close> as \<^verbatim>\<open>set\<close> stores it: when
  \<^verbatim>\<open>JSON.stringify\<close> returns \<^verbatim>\<open>undefined\<close>, the entry is the string \<^verbatim>\<open>"undefined"\<close>.
\<close>

fun partOf :: "jsval \<Rightarrow> entry" where
  "partOf (JBlob b) = EFile b"
| "partOf v = EString (case JSON_stringify v of None \<Rightarrow> ''undefined'' | Some s \<Rightarrow> s)"

text \<open>\<^verbatim>\<open>arg instanceof Blob ? "b" : "j"\<close>\<close>

definition tagOf :: "jsval \<Rightarrow> char" where
  "tagOf v = (if isBlob v then CHR ''b'' else CHR ''j'')"

text \<open>
  What is given to \<^verbatim>\<open>fetch\<close> (and what the server returns as \<^verbatim>\<open>ok\<close>): headers and
  body, and for a request the URL and the method.
\<close>

record parts =
  headers :: "(string \<times> string) list"
  body :: formdata

record request = parts +
  url :: string
  "method" :: string

text \<open>
  A received \<^verbatim>\<open>Request\<close> or \<^verbatim>\<open>Response\<close>, as far as the code reads it:
  \<^verbatim>\<open>headers.get(name)\<close> and the outcome of \<^verbatim>\<open>formData()\<close> (\<open>Inl\<close>: it rejects).
\<close>

record message =
  header :: "string \<Rightarrow> string option"
  formData :: "jsval + formdata"

text \<open>
  What the platform does between the two sides (Fetch standard, the constructor of
  \<^verbatim>\<open>Request\<close> and the method \<^verbatim>\<open>formData\<close> of a body). \<^verbatim>\<open>fetch\<close> writes a
  \<^verbatim>\<open>FormData\<close> body with a boundary of its own and adds the header
  \<^verbatim>\<open>Content-Type: multipart/form-data; boundary=...\<close> only when the caller gives no
  \<^verbatim>\<open>Content-Type\<close>; a header the caller gives is sent as it is. \<^verbatim>\<open>formData()\<close> parses
  a \<^verbatim>\<open>multipart/form-data\<close> body with the \<^verbatim>\<open>boundary\<close> parameter of the
  \<^verbatim>\<open>Content-Type\<close> header and rejects with a \<^verbatim>\<open>TypeError\<close> when it has none. In the
  other cases \<open>transmitted\<close> lets the parts arrive unchanged; the statement about it
  below rests on the rejecting case alone.
\<close>

fun hasSubstring :: "string \<Rightarrow> string \<Rightarrow> bool" where
  "hasSubstring [] p = (p = [])"
| "hasSubstring (c # cs) p = (if stripPrefix p (c # cs) = None then hasSubstring cs p else True)"

definition hasBoundary :: "string \<Rightarrow> bool" where
  "hasBoundary contentType = hasSubstring contentType ''boundary=''"

definition formDataTypeError :: jsval where
  "formDataTypeError = JError ''TypeError'' ''Failed to parse body as FormData.''"

definition transmitted :: "request \<Rightarrow> message" where
  "transmitted req =
     \<lparr>header = map_of (headers req),
      formData =
        (case map_of (headers req) ''Content-Type'' of
           None \<Rightarrow> Inr (body req)
         | Some contentType \<Rightarrow>
             if hasBoundary contentType then Inr (body req) else Inl formDataTypeError)\<rparr>"

subsection \<open>Send side (src/transports/http/throughFetch.ts)\<close>

text \<open>
  The loop over \<^verbatim>\<open>rpc.args.map((arg, i) => [arg, i])\<close>, with \<^verbatim>\<open>body\<close> and
  \<^verbatim>\<open>argtype\<close> as its state (\<open>body'\<close>: \<open>body\<close> is a field of the request below).
\<close>

fun encodeArgs :: "(jsval \<times> nat) list \<Rightarrow> formdata \<times> string \<Rightarrow> formdata \<times> string" where
  "encodeArgs [] (body', argtype) = (body', argtype)"
| "encodeArgs ((arg, i) # rest) (body', argtype) =
     encodeArgs rest (formData_set body' (showNat i) (partOf arg), argtype @ [tagOf arg])"

text \<open>The argument of \<^verbatim>\<open>fetch\<close>.\<close>

definition fetchRequest :: "string \<Rightarrow> 'c rpc \<Rightarrow> request" where
  "fetchRequest config_url rpc =
     (let (body', argtype) = encodeArgs (zip (args rpc) [0..<length (args rpc)]) ([], []) in
      \<lparr>headers = [(''x-simplycall-id'', rpc_id rpc),
                  (''x-simplycall-argtype'', argtype),
                  (''Content-Type'', ''multipart/form-data'')],
       body = body',
       url = config_url,
       method = ''POST''\<rparr>)"

text \<open>The callback given to \<^verbatim>\<open>then\<close>.\<close>

definition onResult :: "string \<Rightarrow> message \<Rightarrow> jsval promise" where
  "onResult rid result =
     (let argtype = header result ''x-simplycall-argtype'' in
      if argtype \<noteq> Some ''b'' \<and> argtype \<noteq> Some ''j''
      then Rejected (JError ''Error''
             (''Unable to parse response type ['' @ (case argtype of None \<Rightarrow> ''null'' | Some t \<Rightarrow> t)
                @ ''] for ['' @ rid @ ''].''))
      else
        (case formData result of
           Inl e \<Rightarrow> Rejected e
         | Inr fd \<Rightarrow>
             (let response = formData_get fd ''0'' in
              if missing response
              then Rejected (JError ''Error'' (''No response received for ['' @ rid @ ''].''))
              else
                (case response of
                   None \<Rightarrow> Rejected (JError ''Error'' (''No response received for ['' @ rid @ ''].''))
                 | Some r \<Rightarrow>
                     if argtype = Some ''b'' then Fulfilled (entryValue r)
                     else (case JSON_parse (entryToString r) of
                             Inl e \<Rightarrow> Rejected e
                           | Inr v \<Rightarrow> Fulfilled v)))))"

text \<open>
  \<^verbatim>\<open>await fetch(...).then(...)\<close> is an expression statement, and the function body
  ends after it: when the promise fulfils, the function returns \<^verbatim>\<open>undefined\<close>.
\<close>

definition sendThroughTransportFallibly ::
  "string \<Rightarrow> (request \<Rightarrow> message promise) \<Rightarrow> 'c rpc \<Rightarrow> jsval promise" where
  "sendThroughTransportFallibly config_url fetch rpc =
     (case fetch (fetchRequest config_url rpc) of
        Rejected e \<Rightarrow> Rejected e
      | Fulfilled result \<Rightarrow>
          (case onResult (rpc_id rpc) result of
             Rejected e \<Rightarrow> Rejected e
           | Fulfilled v \<Rightarrow> Fulfilled JUndefined))"

subsection \<open>Receive side (src/transports/http/fromFetch.ts)\<close>

datatype transportError =
    IdNotProvided
  | FunctionArgumentsAreUntyped
  | FormDataRejected jsval
  | UnknownArgumentType string
  | MissingArgument string
  | Routed routeError

text \<open>
  The loop over \<^verbatim>\<open>argtype.split("").map((type, i) => [type, i])\<close> with \<^verbatim>\<open>args\<close> as
  its state. It ends with the arguments, returns an error, or throws what
  \<^verbatim>\<open>JSON.parse\<close> throws (the call is not inside \<^verbatim>\<open>try\<close>).
\<close>

datatype decoded = Args "jsval list" | Failed transportError | Thrown jsval

fun decodeArgs :: "string \<Rightarrow> string \<Rightarrow> formdata \<Rightarrow> (char \<times> nat) list \<Rightarrow> jsval list \<Rightarrow> decoded" where
  "decodeArgs rid argtype fd [] args' = Args args'"
| "decodeArgs rid argtype fd ((type, i) # rest) args' =
     (if type \<noteq> CHR ''b'' \<and> type \<noteq> CHR ''j''
      then Failed (UnknownArgumentType
             (''Route ['' @ rid @ ''] called with unknown argument type of ['' @ argtype @ ''].''))
      else
        (case formData_get fd (showNat i) of
           None \<Rightarrow>
             Failed (MissingArgument
               (''Route ['' @ rid @ ''] is missing ['' @ [type] @ ''] type argument at position [''
                  @ showNat i @ ''].''))
         | Some data \<Rightarrow>
             if missing (Some data)
             then Failed (MissingArgument
                    (''Route ['' @ rid @ ''] is missing ['' @ [type] @ ''] type argument at position [''
                       @ showNat i @ ''].''))
             else if type = CHR ''b'' then decodeArgs rid argtype fd rest (args' @ [entryValue data])
             else (case JSON_parse (entryToString data) of
                     Inl e \<Rightarrow> Thrown e
                   | Inr v \<Rightarrow> decodeArgs rid argtype fd rest (args' @ [v]))))"

text \<open>
  \<open>dispatch\<close> is the method \<^verbatim>\<open>routeFromTransportInfallibly\<close> of the object \<^verbatim>\<open>handler\<close>
  given to \<^verbatim>\<open>makeTransportFromFetch\<close>.
\<close>

definition onRequestInfallibly ::
  "('c rpc \<Rightarrow> routeResult promise) \<Rightarrow> message \<Rightarrow> 'c \<Rightarrow> (transportError, parts) result promise" where
  "onRequestInfallibly dispatch request c =
     (case header request ''x-simplycall-id'' of
        None \<Rightarrow> Fulfilled (Err IdNotProvided)
      | Some rid \<Rightarrow>
          (case header request ''x-simplycall-argtype'' of
             None \<Rightarrow> Fulfilled (Err FunctionArgumentsAreUntyped)
           | Some argtype \<Rightarrow>
               (case formData request of
                  Inl err \<Rightarrow> Fulfilled (Err (FormDataRejected err))
                | Inr fd \<Rightarrow>
                    (case decodeArgs rid argtype fd (zip argtype [0..<length argtype]) [] of
                       Failed e \<Rightarrow> Fulfilled (Err e)
                     | Thrown e \<Rightarrow> Rejected e
                     | Args args' \<Rightarrow>
                         (case dispatch \<lparr>ctx = c, rpc_id = rid, args = args'\<rparr> of
                            Rejected e \<Rightarrow> Rejected e
                          | Fulfilled (Err e) \<Rightarrow> Fulfilled (Err (Routed e))
                          | Fulfilled (Ok ok) \<Rightarrow>
                              Fulfilled (Ok \<lparr>headers = [(''x-simplycall-argtype'', [tagOf ok]),
                                                         (''Content-Type'', ''multipart/form-data'')],
                                             body = formData_set [] ''0'' (partOf ok)\<rparr>))))))"

section \<open>Notions used in the statements\<close>

text \<open>
  The values that JSON represents: no \<^verbatim>\<open>undefined\<close>, \<^verbatim>\<open>Blob\<close> or \<^verbatim>\<open>Error\<close> at any
  depth, numbers among the safe integers (where the integers of the model are the
  numbers of the language), and objects with distinct keys.
\<close>

fun jsonValue :: "jsval \<Rightarrow> bool"
  and jsonValues :: "jsval list \<Rightarrow> bool"
  and jsonProperties :: "(string \<times> jsval) list \<Rightarrow> bool" where
  "jsonValue JUndefined = False"
| "jsonValue JNull = True"
| "jsonValue (JBool b) = True"
| "jsonValue (JNum n) = (\<bar>n\<bar> \<le> 9007199254740991)"
| "jsonValue (JStr s) = True"
| "jsonValue (JArr xs) = jsonValues xs"
| "jsonValue (JObj ps) = (distinct (map fst ps) \<and> jsonProperties ps)"
| "jsonValue (JBlob b) = False"
| "jsonValue (JError n m) = False"
| "jsonValues [] = True"
| "jsonValues (x # xs) = (jsonValue x \<and> jsonValues xs)"
| "jsonProperties [] = True"
| "jsonProperties ((k, v) # ps) = (jsonValue v \<and> jsonProperties ps)"

text \<open>What may follow a value in a JSON text: the end, or one of \<^verbatim>\<open>, ] }\<close>.\<close>

definition numberEnd :: "string \<Rightarrow> bool" where
  "numberEnd rest \<longleftrightarrow> rest = [] \<or> hd rest \<in> {CHR '','', CHR '']'', CHR ''}''}"

definition numberStart :: "char \<Rightarrow> bool" where
  "numberStart c \<longleftrightarrow> c = CHR ''-'' \<or> isDigit c"

definition valueStart :: "char \<Rightarrow> bool" where
  "valueStart c \<longleftrightarrow> \<not> isWhiteSpace c \<and> c \<noteq> CHR '']''"

text \<open>
  The parser reads back what the serializer wrote, with fuel from the length of the
  text on: for a value, for the elements of an array up to the closing bracket, and
  for the members of an object up to the closing brace.
\<close>

definition valueOk :: "jsval \<Rightarrow> bool" where
  "valueOk v \<longleftrightarrow>
     (\<forall>s f rest. serializeJSONProperty v = Some s \<longrightarrow> length s \<le> f \<longrightarrow> numberEnd rest \<longrightarrow>
        parseValue f (s @ rest) = Some (v, rest))"

definition elementsOk :: "jsval list \<Rightarrow> bool" where
  "elementsOk xs \<longleftrightarrow>
     (\<forall>f rest. length (joinComma (serializeJSONArray xs)) < f \<longrightarrow>
        parseElements f (joinComma (serializeJSONArray xs) @ CHR '']'' # rest) = Some (xs, rest))"

definition membersOk :: "(string \<times> jsval) list \<Rightarrow> bool" where
  "membersOk ps \<longleftrightarrow>
     (\<forall>f rest. length (joinComma (serializeJSONObject ps)) < f \<longrightarrow>
        parseMembers f (joinComma (serializeJSONObject ps) @ CHR ''}'' # rest) = Some (ps, rest))"

section \<open>Routers and a server for the examples\<close>

text \<open>
  The router of the scenario in the specification: scope \<^verbatim>\<open>s\<close>, route \<^verbatim>\<open>r\<close>, the
  identity parser and a handler that returns 42.
\<close>

definition answerRouter :: "unit routes" where
  "answerRouter =
     snd (conformArgumentsThrough ''s'' [''r'' \<mapsto> (\<lambda>this args'. Resolves (JNum 42))]
            [(''r'', AssumeTypesafe)] Map.empty)"

text \<open>
  Handlers and a parser that fail, as in the tests of the repository: \<^verbatim>\<open>route1\<close> is
  \<^verbatim>\<open>async\<close> and throws (its promise rejects), \<^verbatim>\<open>route2\<close> is not \<^verbatim>\<open>async\<close> and
  throws, the parser of \<^verbatim>\<open>route3\<close> throws.
\<close>

definition alwaysFail :: jsval where
  "alwaysFail = JError ''Error'' ''always fail''"

definition failingRouter :: "unit routes" where
  "failingRouter =
     snd (conformArgumentsThrough ''scope''
            [''route1'' \<mapsto> (\<lambda>this args'. Rejects alwaysFail),
             ''route2'' \<mapsto> (\<lambda>this args'. Throws alwaysFail),
             ''route3'' \<mapsto> (\<lambda>this args'. Resolves (JStr ''route3''))]
            [(''route1'', AssumeTypesafe), (''route2'', AssumeTypesafe),
             (''route3'', Parser (\<lambda>this args'. Inl alwaysFail))]
            Map.empty)"

text \<open>
  A route whose parser returns \<^verbatim>\<open>[this[ctx]]\<close> and whose handler returns
  \<^verbatim>\<open>[this[ctx], ...args]\<close>.
\<close>

definition thisCtx :: "jsval receiver \<Rightarrow> jsval" where
  "thisCtx this = (case this of None \<Rightarrow> JUndefined | Some c \<Rightarrow> c)"

definition whoamiRouter :: "jsval routes" where
  "whoamiRouter =
     snd (conformArgumentsThrough ''s''
            [''whoami'' \<mapsto> (\<lambda>this args'. Resolves (JArr (thisCtx this # args')))]
            [(''whoami'', Parser (\<lambda>this args'. Inr [thisCtx this]))]
            Map.empty)"

text \<open>
  A server to produce responses for the send side in the examples: it reads a
  request as if headers and parts had arrived unchanged (\<open>received\<close>; what the
  platform really hands over is \<open>transmitted\<close> above), and answers with the parts of
  an \<^verbatim>\<open>ok\<close> result and with an empty response otherwise.
\<close>

definition received :: "request \<Rightarrow> message" where
  "received req = \<lparr>header = map_of (headers req), formData = Inr (body req)\<rparr>"

definition server :: "'c routes \<Rightarrow> 'c \<Rightarrow> request \<Rightarrow> message promise" where
  "server routes c req =
     (case onRequestInfallibly (\<lambda>rpc. fst (routeFromTransportInfallibly routes rpc)) (received req) c of
        Rejected e \<Rightarrow> Rejected e
      | Fulfilled (Err e) \<Rightarrow>
          Fulfilled \<lparr>header = Map.empty, formData = Inl (JError ''TypeError'' ''Failed to parse body'')\<rparr>
      | Fulfilled (Ok p) \<Rightarrow> Fulfilled \<lparr>header = map_of (headers p), formData = Inr (body p)\<rparr>)"

section \<open>JSON: the parser reads back what the serializer writes\<close>

lemma isDigit_digit: "d < 10 \<Longrightarrow> isDigit (digit d)"
  by (simp add: isDigit_def digit_def)

lemma digit_value: "d < 10 \<Longrightarrow> of_char (digit d) - 48 = d"
  by (simp add: digit_def)

lemma digit_inject: "a < 10 \<Longrightarrow> b < 10 \<Longrightarrow> digit a = digit b \<longleftrightarrow> a = b"
  unfolding digit_def by (metis digit_def digit_value)

lemma showNat_digits: "\<forall>c \<in> set (showNat n). isDigit c"
  by (induction n rule: showNat.induct) (subst showNat.simps, simp add: isDigit_digit)

lemma showNat_nonempty: "showNat n \<noteq> []"
  by (subst showNat.simps) simp

lemma digitsValue_snoc: "digitsValue (ds @ [c]) = 10 * digitsValue ds + (of_char c - 48)"
  by (simp add: digitsValue_def)

lemma digitsValue_showNat: "digitsValue (showNat n) = n"
proof (induction n rule: showNat.induct)
  case (1 n)
  show ?case
  proof (cases "n < 10")
    case True
    then show ?thesis by (subst showNat.simps) (simp add: digitsValue_def digit_value)
  next
    case False
    then have "digitsValue (showNat n) = 10 * digitsValue (showNat (n div 10)) + (of_char (digit (n mod 10)) - 48)"
      by (subst showNat.simps) (simp add: digitsValue_snoc)
    then show ?thesis using 1 False by (simp add: digit_value)
  qed
qed

lemma showNat_inject: "showNat a = showNat b \<longleftrightarrow> a = b"
  by (metis digitsValue_showNat)

lemma showNat_hd: "0 < n \<Longrightarrow> hd (showNat n) \<noteq> CHR ''0''"
proof (induction n rule: showNat.induct)
  case (1 n)
  show ?case
  proof (cases "n < 10")
    case True
    then have "showNat n = [digit n]" by (subst showNat.simps) simp
    moreover have "digit n \<noteq> digit 0" using True 1(2) by (simp add: digit_inject)
    moreover have "digit 0 = CHR ''0''" by (simp add: digit_def char_of_eq_iff)
    ultimately show ?thesis by (metis list.sel(1))
  next
    case False
    then have "showNat n = showNat (n div 10) @ [digit (n mod 10)]" by (subst showNat.simps) simp
    then have "hd (showNat n) = hd (showNat (n div 10))" by (simp add: showNat_nonempty)
    moreover have "0 < n div 10" using False by simp
    ultimately show ?thesis using 1(1) False by simp
  qed
qed

lemma showNat_length: "1 < length (showNat n) \<Longrightarrow> 0 < n"
  by (cases "n = 0") (simp_all add: showNat.simps)

lemma numberEnd_not_digit: "numberEnd rest \<Longrightarrow> rest = [] \<or> \<not> isDigit (hd rest)"
  by (auto simp: numberEnd_def isDigit_def)

lemma takeWhile_showNat: "numberEnd rest \<Longrightarrow> takeWhile isDigit (showNat n @ rest) = showNat n"
  using numberEnd_not_digit[of rest] showNat_digits[of n]
  by (cases rest) (auto simp: takeWhile_append2 takeWhile_eq_all_conv)

lemma dropWhile_showNat: "numberEnd rest \<Longrightarrow> dropWhile isDigit (showNat n @ rest) = rest"
  using numberEnd_not_digit[of rest] showNat_digits[of n]
  by (cases rest) (auto simp: dropWhile_append2)

lemma parseUnsigned_showNat:
  assumes "numberEnd rest"
  shows "parseUnsigned (showNat n @ rest) = Some (n, rest)"
proof -
  have "\<not> (1 < length (showNat n) \<and> hd (showNat n) = CHR ''0'')"
    using showNat_length showNat_hd by blast
  moreover have "\<not> (rest \<noteq> [] \<and> hd rest \<in> {CHR ''.'', CHR ''e'', CHR ''E''})"
    using assms by (auto simp: numberEnd_def)
  ultimately show ?thesis
    using assms
    by (simp add: parseUnsigned_def takeWhile_showNat dropWhile_showNat showNat_nonempty
        digitsValue_showNat Let_def del: insert_iff)
qed

lemma showNat_not_minus: "hd (showNat n) \<noteq> CHR ''-''"
proof -
  have "hd (showNat n) \<in> set (showNat n)" by (simp add: showNat_nonempty)
  then have "isDigit (hd (showNat n))" using showNat_digits by blast
  then show ?thesis by (auto simp: isDigit_def)
qed

lemma parseNumber_numberToString:
  assumes "numberEnd rest"
  shows "parseNumber (numberToString n @ rest) = Some (JNum n, rest)"
proof (cases "n < 0")
  case True
  then show ?thesis
    by (simp add: parseNumber_def numberToString_def parseUnsigned_showNat[OF assms])
next
  case False
  obtain c cs where s: "showNat (nat n) = c # cs"
    using showNat_nonempty[of "nat n"] by (cases "showNat (nat n)") auto
  then have "c \<noteq> CHR ''-''" using showNat_not_minus[of "nat n"] by simp
  moreover have "parseUnsigned ((c # cs) @ rest) = Some (nat n, rest)"
    using parseUnsigned_showNat[OF assms, of "nat n"] s by simp
  ultimately show ?thesis using False s
    by (simp add: parseNumber_def numberToString_def)
qed

lemma hexValue_hexDigit: "d < 16 \<Longrightarrow> hexValue (hexDigit d) = Some d"
  by (auto simp: hexValue_def hexDigit_def Let_def)

lemma hexValue_zero: "hexValue CHR ''0'' = Some 0"
  by (simp add: hexValue_def)

lemma unicodeEscape_control:
  assumes "of_char c < (32 :: nat)"
  shows "unicodeEscape CHR ''0'' CHR ''0'' (hexDigit (of_char c div 16)) (hexDigit (of_char c mod 16)) = Some c"
proof -
  have "hexValue (hexDigit (of_char c div 16)) = Some (of_char c div 16)"
    using assms by (intro hexValue_hexDigit) simp
  moreover have "hexValue (hexDigit (of_char c mod 16)) = Some (of_char c mod 16)"
    by (intro hexValue_hexDigit) simp
  moreover have "(of_char c :: nat) < 256" using assms by simp
  ultimately show ?thesis
    by (simp add: unicodeEscape_def hexValue_zero)
qed

lemma parseStringChars_quoteChar:
  assumes "parseStringChars rest = Some (s, rest')"
  shows "parseStringChars (quoteChar c @ rest) = Some (c # s, rest')"
proof -
  consider (short) "c \<in> {CHR 0x08, CHR 0x09, CHR 0x0A, CHR 0x0C, CHR 0x0D, CHR 0x22, CHR 0x5C}"
    | (control) "c \<notin> {CHR 0x08, CHR 0x09, CHR 0x0A, CHR 0x0C, CHR 0x0D, CHR 0x22, CHR 0x5C}" "of_char c < (32 :: nat)"
    | (plain) "c \<notin> {CHR 0x08, CHR 0x09, CHR 0x0A, CHR 0x0C, CHR 0x0D, CHR 0x22, CHR 0x5C}" "\<not> of_char c < (32 :: nat)"
    by blast
  then show ?thesis
  proof cases
    case short
    then show ?thesis using assms
      by (auto simp: quoteChar_def simpleEscape_def consChar_def)
  next
    case control
    then show ?thesis using assms unicodeEscape_control[OF control(2)]
      by (simp add: quoteChar_def consChar_def)
  next
    case plain
    then show ?thesis using assms
      by (simp add: quoteChar_def consChar_def)
  qed
qed

lemma parseStringChars_quoted:
  "parseStringChars (concat (map quoteChar s) @ CHR 0x22 # rest) = Some (s, rest)"
  by (induction s) (simp_all add: parseStringChars_quoteChar)

lemma expect_hit: "\<not> isWhiteSpace c \<Longrightarrow> expect c (c # rest) = Some rest"
  by (simp add: expect_def skipWhiteSpace_def)

lemma expect_miss: "\<not> isWhiteSpace d \<Longrightarrow> d \<noteq> c \<Longrightarrow> expect c (d # rest) = None"
  by (simp add: expect_def skipWhiteSpace_def)

lemma skipWhiteSpace_start: "\<not> isWhiteSpace c \<Longrightarrow> skipWhiteSpace (c # cs) = c # cs"
  by (simp add: skipWhiteSpace_def)

lemma numberStart_other:
  assumes "numberStart c"
  shows "\<not> isWhiteSpace c" and "c \<noteq> CHR ''[''" and "c \<noteq> CHR ''{''" and "c \<noteq> CHR 0x22"
    and "c \<noteq> CHR ''n''" and "c \<noteq> CHR ''t''" and "c \<noteq> CHR ''f''" and "c \<noteq> CHR '']''"
  using assms by (auto simp: numberStart_def isDigit_def isWhiteSpace_def)

lemma numberToString_start: "\<exists>c cs. numberToString n = c # cs \<and> numberStart c"
proof (cases "n < 0")
  case True
  then show ?thesis by (simp add: numberToString_def numberStart_def)
next
  case False
  obtain c cs where s: "showNat (nat n) = c # cs"
    using showNat_nonempty[of "nat n"] by (cases "showNat (nat n)") auto
  then have "isDigit c" using showNat_digits[of "nat n"] by simp
  then show ?thesis using False s by (simp add: numberToString_def numberStart_def)
qed

lemma serialize_start:
  assumes "jsonValue v" and "serializeJSONProperty v = Some s"
  shows "\<exists>c cs. s = c # cs \<and> valueStart c"
proof (cases v)
  case (JNum n)
  obtain c cs where c: "numberToString n = c # cs" "numberStart c"
    using numberToString_start[of n] by blast
  have "s = c # cs" using assms(2) JNum c(1) by simp
  moreover have "valueStart c" using numberStart_other(1,8)[OF c(2)] by (simp add: valueStart_def)
  ultimately show ?thesis by blast
qed (use assms in \<open>auto simp: valueStart_def isWhiteSpace_def quoteJSONString_def\<close>)

lemma jsonValue_serializes: "jsonValue v \<Longrightarrow> \<exists>s. serializeJSONProperty v = Some s"
  by (cases v) simp_all

lemma parseValue_other:
  assumes "\<not> isWhiteSpace c" and "c \<noteq> CHR ''[''" and "c \<noteq> CHR ''{''" and "c \<noteq> CHR 0x22"
    and "c \<noteq> CHR ''n''" and "c \<noteq> CHR ''t''" and "c \<noteq> CHR ''f''"
  shows "parseValue (Suc f) (c # cs) = parseNumber (c # cs)"
  using assms by (simp add: skipWhiteSpace_start)

lemma parseValue_number:
  assumes "numberEnd rest" and "0 < f"
  shows "parseValue f (numberToString n @ rest) = Some (JNum n, rest)"
proof -
  obtain f' where f: "f = Suc f'" using assms(2) by (cases f) auto
  obtain c cs where s: "numberToString n = c # cs" and c: "numberStart c"
    using numberToString_start[of n] by blast
  have "parseValue (Suc f') (c # (cs @ rest)) = parseNumber (c # (cs @ rest))"
    by (intro parseValue_other numberStart_other[OF c])
  also have "\<dots> = parseNumber (numberToString n @ rest)"
    by (simp only: s append_Cons)
  also have "\<dots> = Some (JNum n, rest)"
    by (rule parseNumber_numberToString[OF assms(1)])
  finally show ?thesis by (simp only: f s append_Cons)
qed

lemma parseValue_string:
  assumes "0 < f"
  shows "parseValue f (quoteJSONString s @ rest) = Some (JStr s, rest)"
proof -
  obtain f' where f: "f = Suc f'" using assms by (cases f) auto
  have ws: "\<not> isWhiteSpace (CHR 0x22)" by (simp add: isWhiteSpace_def)
  show ?thesis
    by (simp add: f quoteJSONString_def skipWhiteSpace_start[OF ws] parseStringChars_quoted)
qed

lemma parseValue_literals:
  assumes "0 < f"
  shows "parseValue f (''null'' @ rest) = Some (JNull, rest)"
    and "parseValue f (''true'' @ rest) = Some (JBool True, rest)"
    and "parseValue f (''false'' @ rest) = Some (JBool False, rest)"
proof -
  obtain f' where f: "f = Suc f'" using assms by (cases f) auto
  show "parseValue f (''null'' @ rest) = Some (JNull, rest)"
    by (simp add: f skipWhiteSpace_def isWhiteSpace_def literal_def)
  show "parseValue f (''true'' @ rest) = Some (JBool True, rest)"
    by (simp add: f skipWhiteSpace_def isWhiteSpace_def literal_def)
  show "parseValue f (''false'' @ rest) = Some (JBool False, rest)"
    by (simp add: f skipWhiteSpace_def isWhiteSpace_def literal_def)
qed

lemma setProperty_fresh: "k \<notin> fst ` set ps \<Longrightarrow> setProperty k v ps = ps @ [(k, v)]"
  by (induction ps) auto

lemma foldl_setProperty:
  "distinct (map fst (acc @ ps)) \<Longrightarrow> foldl (\<lambda>obj (k, v). setProperty k v obj) acc ps = acc @ ps"
proof (induction ps arbitrary: acc)
  case Nil
  then show ?case by simp
next
  case (Cons p ps)
  obtain k v where p: "p = (k, v)" by (cases p)
  have "k \<notin> fst ` set acc" using Cons.prems p by auto
  then have "setProperty k v acc = acc @ [(k, v)]" by (rule setProperty_fresh)
  moreover have "distinct (map fst ((acc @ [(k, v)]) @ ps))" using Cons.prems p by simp
  ultimately show ?case using Cons.IH[of "acc @ [(k, v)]"] p by simp
qed

lemma numberEnd_simps: "numberEnd []" "numberEnd (CHR '','' # r)" "numberEnd (CHR '']'' # r)" "numberEnd (CHR ''}'' # r)"
  by (simp_all add: numberEnd_def)

lemma parseElements_step_last:
  assumes "parseValue f (s @ CHR '']'' # rest) = Some (x, CHR '']'' # rest)"
  shows "parseElements (Suc f) (s @ CHR '']'' # rest) = Some ([x], rest)"
  using assms by (simp add: expect_miss expect_hit isWhiteSpace_def)

lemma parseElements_step_more:
  assumes "parseValue f (s @ CHR '','' # tail) = Some (x, CHR '','' # tail)"
    and "parseElements f tail = Some (xs, rest)"
  shows "parseElements (Suc f) (s @ CHR '','' # tail) = Some (x # xs, rest)"
  using assms by (simp add: expect_hit isWhiteSpace_def)

lemma parseMembers_step_last:
  assumes "parseValue f (s @ CHR ''}'' # rest) = Some (v, CHR ''}'' # rest)"
  shows "parseMembers (Suc f) (quoteJSONString k @ CHR '':'' # s @ CHR ''}'' # rest) = Some ([(k, v)], rest)"
  using assms
  by (simp add: quoteJSONString_def expect_miss expect_hit isWhiteSpace_def parseStringChars_quoted)

lemma parseMembers_step_more:
  assumes "parseValue f (s @ CHR '','' # tail) = Some (v, CHR '','' # tail)"
    and "parseMembers f tail = Some (ps, rest)"
  shows "parseMembers (Suc f) (quoteJSONString k @ CHR '':'' # s @ CHR '','' # tail) = Some ((k, v) # ps, rest)"
  using assms
  by (simp add: quoteJSONString_def expect_hit isWhiteSpace_def parseStringChars_quoted)

lemma parseValue_array_empty: "parseValue (Suc f) (''[]'' @ rest) = Some (JArr [], rest)"
  by (simp add: skipWhiteSpace_def expect_def isWhiteSpace_def)

lemma parseValue_object_empty: "parseValue (Suc f) (''{}'' @ rest) = Some (JObj [], rest)"
  by (simp add: skipWhiteSpace_def expect_def isWhiteSpace_def)

lemma parseValue_array:
  assumes "parseElements f (c # cs) = Some (xs, rest)" and "\<not> isWhiteSpace c" and "c \<noteq> CHR '']''"
  shows "parseValue (Suc f) (CHR ''['' # c # cs) = Some (JArr xs, rest)"
  using assms by (simp add: skipWhiteSpace_def expect_miss isWhiteSpace_def)

lemma parseValue_object:
  assumes "parseMembers f (CHR 0x22 # cs) = Some (ps, rest)" and "distinct (map fst ps)"
  shows "parseValue (Suc f) (CHR ''{'' # CHR 0x22 # cs) = Some (JObj ps, rest)"
  using assms foldl_setProperty[of "[]" ps]
  by (simp add: skipWhiteSpace_def expect_miss isWhiteSpace_def)

lemma joinComma_cons: "ys \<noteq> [] \<Longrightarrow> joinComma (x # ys) = x @ CHR '','' # joinComma ys"
  by (cases ys) simp_all

lemma serializeJSONArray_nonempty: "xs \<noteq> [] \<Longrightarrow> serializeJSONArray xs \<noteq> []"
  by (cases xs) simp_all

lemma serializeJSONObject_nonempty:
  assumes "jsonProperties ps" and "ps \<noteq> []"
  shows "serializeJSONObject ps \<noteq> []"
proof -
  obtain k v qs where ps: "ps = (k, v) # qs" using assms(2) by (cases ps) auto
  then have "jsonValue v" using assms(1) by simp
  then obtain s where "serializeJSONProperty v = Some s" using jsonValue_serializes by blast
  then show ?thesis by (simp add: ps)
qed

lemma valueOkD:
  "valueOk v \<Longrightarrow> serializeJSONProperty v = Some s \<Longrightarrow> length s \<le> f \<Longrightarrow> numberEnd rest \<Longrightarrow>
     parseValue f (s @ rest) = Some (v, rest)"
  unfolding valueOk_def by blast

lemma fuel_positive: "s \<noteq> [] \<Longrightarrow> length s \<le> f \<Longrightarrow> 0 < f"
  by (cases s) auto

lemma valueOk_JNull: "valueOk JNull"
  unfolding valueOk_def
proof (intro allI impI)
  fix s f rest
  assume a: "serializeJSONProperty JNull = Some s" and b: "length s \<le> f"
  have s: "s = ''null''" using a by simp
  then have "0 < f" using fuel_positive[OF _ b] by simp
  then show "parseValue f (s @ rest) = Some (JNull, rest)"
    unfolding s by (rule parseValue_literals(1))
qed

lemma valueOk_JBool: "valueOk (JBool b)"
  unfolding valueOk_def
proof (intro allI impI)
  fix s f rest
  assume a: "serializeJSONProperty (JBool b) = Some s" and l: "length s \<le> f"
  have s: "s = (if b then ''true'' else ''false'')" using a by simp
  then have "s \<noteq> []" by (cases b) simp_all
  then have f: "0 < f" using fuel_positive[OF _ l] by simp
  show "parseValue f (s @ rest) = Some (JBool b, rest)"
  proof (cases b)
    case True
    have "parseValue f (''true'' @ rest) = Some (JBool True, rest)"
      by (rule parseValue_literals(2)[OF f])
    then show ?thesis using True s by simp
  next
    case False
    have "parseValue f (''false'' @ rest) = Some (JBool False, rest)"
      by (rule parseValue_literals(3)[OF f])
    then show ?thesis using False s by simp
  qed
qed

lemma valueOk_JNum: "valueOk (JNum n)"
  unfolding valueOk_def
proof (intro allI impI)
  fix s f rest
  assume a: "serializeJSONProperty (JNum n) = Some s" and b: "length s \<le> f" and r: "numberEnd rest"
  have s: "s = numberToString n" using a by simp
  have "numberToString n \<noteq> []" using numberToString_start[of n] by auto
  then have "0 < f" using fuel_positive[OF _ b] s by simp
  then show "parseValue f (s @ rest) = Some (JNum n, rest)"
    unfolding s by (rule parseValue_number[OF r])
qed

lemma valueOk_JStr: "valueOk (JStr t)"
  unfolding valueOk_def
proof (intro allI impI)
  fix s f rest
  assume a: "serializeJSONProperty (JStr t) = Some s" and b: "length s \<le> f"
  have s: "s = quoteJSONString t" using a by simp
  have "quoteJSONString t \<noteq> []" by (simp add: quoteJSONString_def)
  then have "0 < f" using fuel_positive[OF _ b] s by simp
  then show "parseValue f (s @ rest) = Some (JStr t, rest)"
    unfolding s by (rule parseValue_string)
qed

lemma valueOk_JArr:
  assumes "xs \<noteq> [] \<Longrightarrow> elementsOk xs" and "jsonValues xs"
  shows "valueOk (JArr xs)"
  unfolding valueOk_def
proof (intro allI impI)
  fix s f rest
  assume a: "serializeJSONProperty (JArr xs) = Some s" and b: "length s \<le> f"
  have s: "s = CHR ''['' # joinComma (serializeJSONArray xs) @ '']''" using a by simp
  then obtain f' where f': "f = Suc f'" using b by (cases f) auto
  show "parseValue f (s @ rest) = Some (JArr xs, rest)"
  proof (cases "xs = []")
    case True
    then show ?thesis using parseValue_array_empty[of f' rest] by (simp add: f' s)
  next
    case False
    obtain x ys where xs: "xs = x # ys" using False by (cases xs) auto
    have x: "jsonValue x" using assms(2) xs by simp
    then obtain sx where sx: "serializeJSONProperty x = Some sx"
      using jsonValue_serializes by blast
    obtain c cs where c: "sx = c # cs" "valueStart c"
      using serialize_start[OF x sx] by blast
    have "joinComma (serializeJSONArray xs) = c # (tl (joinComma (serializeJSONArray xs)))"
      by (cases ys) (simp_all add: xs sx c)
    then obtain t where t: "joinComma (serializeJSONArray xs) = c # t" by blast
    have "length (joinComma (serializeJSONArray xs)) < f'" using b by (simp add: f' s)
    then have "parseElements f' (joinComma (serializeJSONArray xs) @ CHR '']'' # rest) = Some (xs, rest)"
      using assms(1)[OF False] unfolding elementsOk_def by blast
    then have "parseElements f' (c # (t @ CHR '']'' # rest)) = Some (xs, rest)"
      by (simp add: t)
    then have "parseValue (Suc f') (CHR ''['' # c # (t @ CHR '']'' # rest)) = Some (JArr xs, rest)"
      using c(2) unfolding valueStart_def by (intro parseValue_array) simp_all
    then show ?thesis by (simp add: f' s t)
  qed
qed

lemma valueOk_JObj:
  assumes "ps \<noteq> [] \<Longrightarrow> membersOk ps" and "jsonProperties ps" and "distinct (map fst ps)"
  shows "valueOk (JObj ps)"
  unfolding valueOk_def
proof (intro allI impI)
  fix s f rest
  assume a: "serializeJSONProperty (JObj ps) = Some s" and b: "length s \<le> f"
  have s: "s = CHR ''{'' # joinComma (serializeJSONObject ps) @ ''}''" using a by simp
  then obtain f' where f': "f = Suc f'" using b by (cases f) auto
  show "parseValue f (s @ rest) = Some (JObj ps, rest)"
  proof (cases "ps = []")
    case True
    then show ?thesis using parseValue_object_empty[of f' rest] by (simp add: f' s)
  next
    case False
    obtain k x qs where ps: "ps = (k, x) # qs" using False by (cases ps) auto
    have x: "jsonValue x" using assms(2) ps by simp
    then obtain sx where sx: "serializeJSONProperty x = Some sx"
      using jsonValue_serializes by blast
    have "joinComma (serializeJSONObject ps) = CHR 0x22 # (tl (joinComma (serializeJSONObject ps)))"
      by (cases "serializeJSONObject qs") (simp_all add: ps sx quoteJSONString_def)
    then obtain t where t: "joinComma (serializeJSONObject ps) = CHR 0x22 # t" by blast
    have "length (joinComma (serializeJSONObject ps)) < f'" using b by (simp add: f' s)
    then have "parseMembers f' (joinComma (serializeJSONObject ps) @ CHR ''}'' # rest) = Some (ps, rest)"
      using assms(1)[OF False] unfolding membersOk_def by blast
    then have "parseMembers f' (CHR 0x22 # (t @ CHR ''}'' # rest)) = Some (ps, rest)"
      by (simp add: t)
    then have "parseValue (Suc f') (CHR ''{'' # CHR 0x22 # (t @ CHR ''}'' # rest)) = Some (JObj ps, rest)"
      using assms(3) by (intro parseValue_object) simp_all
    then show ?thesis by (simp add: f' s t)
  qed
qed

lemma elementsOk_Cons:
  assumes "valueOk x" and "xs \<noteq> [] \<Longrightarrow> elementsOk xs" and "jsonValue x"
  shows "elementsOk (x # xs)"
  unfolding elementsOk_def
proof (intro allI impI)
  fix f rest
  assume b: "length (joinComma (serializeJSONArray (x # xs))) < f"
  obtain f' where f': "f = Suc f'" using b by (cases f) auto
  obtain sx where sx: "serializeJSONProperty x = Some sx"
    using jsonValue_serializes[OF assms(3)] by blast
  have sx_ne: "sx \<noteq> []" using serialize_start[OF assms(3) sx] by auto
  show "parseElements f (joinComma (serializeJSONArray (x # xs)) @ CHR '']'' # rest) = Some (x # xs, rest)"
  proof (cases "xs = []")
    case True
    have j: "joinComma (serializeJSONArray (x # xs)) = sx" using True by (simp add: sx)
    have "length sx \<le> f'" using b unfolding j f' by simp
    then have "parseValue f' (sx @ CHR '']'' # rest) = Some (x, CHR '']'' # rest)"
      by (intro valueOkD[OF assms(1) sx]) (simp_all add: numberEnd_simps)
    then have "parseElements (Suc f') (sx @ CHR '']'' # rest) = Some ([x], rest)"
      by (rule parseElements_step_last)
    then show ?thesis unfolding j f' by (simp only: True)
  next
    case False
    let ?tl = "joinComma (serializeJSONArray xs) @ CHR '']'' # rest"
    have j: "joinComma (serializeJSONArray (x # xs)) = sx @ CHR '','' # joinComma (serializeJSONArray xs)"
      using serializeJSONArray_nonempty[OF False] by (simp add: sx joinComma_cons)
    have "length sx \<le> f'" using b unfolding j f' by simp
    then have a: "parseValue f' (sx @ CHR '','' # ?tl) = Some (x, CHR '','' # ?tl)"
      by (intro valueOkD[OF assms(1) sx]) (simp_all add: numberEnd_simps)
    have "length (joinComma (serializeJSONArray xs)) < f'" using b sx_ne unfolding j f' by simp
    then have "parseElements f' ?tl = Some (xs, rest)"
      using assms(2)[OF False] unfolding elementsOk_def by blast
    then have "parseElements (Suc f') (sx @ CHR '','' # ?tl) = Some (x # xs, rest)"
      by (rule parseElements_step_more[OF a])
    then show ?thesis unfolding j f' by (simp only: append_assoc append_Cons)
  qed
qed

lemma membersOk_Cons:
  assumes "valueOk x" and "ps \<noteq> [] \<Longrightarrow> membersOk ps" and "jsonValue x" and "jsonProperties ps"
  shows "membersOk ((k, x) # ps)"
  unfolding membersOk_def
proof (intro allI impI)
  fix f rest
  assume b: "length (joinComma (serializeJSONObject ((k, x) # ps))) < f"
  obtain f' where f': "f = Suc f'" using b by (cases f) auto
  obtain sx where sx: "serializeJSONProperty x = Some sx"
    using jsonValue_serializes[OF assms(3)] by blast
  show "parseMembers f (joinComma (serializeJSONObject ((k, x) # ps)) @ CHR ''}'' # rest) = Some ((k, x) # ps, rest)"
  proof (cases "ps = []")
    case True
    have j: "joinComma (serializeJSONObject ((k, x) # ps)) = quoteJSONString k @ CHR '':'' # sx"
      using True by (simp add: sx)
    have "length sx \<le> f'" using b unfolding j f' by simp
    then have "parseValue f' (sx @ CHR ''}'' # rest) = Some (x, CHR ''}'' # rest)"
      by (intro valueOkD[OF assms(1) sx]) (simp_all add: numberEnd_simps)
    then have "parseMembers (Suc f') ((quoteJSONString k @ CHR '':'' # sx) @ CHR ''}'' # rest) = Some ([(k, x)], rest)"
      unfolding append_assoc append_Cons by (rule parseMembers_step_last)
    then show ?thesis unfolding j f' by (simp only: True)
  next
    case False
    let ?tl = "joinComma (serializeJSONObject ps) @ CHR ''}'' # rest"
    have j: "joinComma (serializeJSONObject ((k, x) # ps)) =
               (quoteJSONString k @ CHR '':'' # sx) @ CHR '','' # joinComma (serializeJSONObject ps)"
      using serializeJSONObject_nonempty[OF assms(4) False] by (simp add: sx joinComma_cons)
    have "length sx \<le> f'" using b unfolding j f' by simp
    then have a: "parseValue f' (sx @ CHR '','' # ?tl) = Some (x, CHR '','' # ?tl)"
      by (intro valueOkD[OF assms(1) sx]) (simp_all add: numberEnd_simps)
    have "length (joinComma (serializeJSONObject ps)) < f'" using b unfolding j f' by simp
    then have "parseMembers f' ?tl = Some (ps, rest)"
      using assms(2)[OF False] unfolding membersOk_def by blast
    then have "parseMembers (Suc f') ((quoteJSONString k @ CHR '':'' # sx) @ CHR '','' # ?tl) = Some ((k, x) # ps, rest)"
      unfolding append_assoc append_Cons by (rule parseMembers_step_more[OF a])
    then show ?thesis unfolding j f' by (simp only: append_assoc append_Cons)
  qed
qed

lemma parse_serialized:
  "jsonValue v \<longrightarrow> valueOk v"
  "jsonValues xs \<longrightarrow> xs \<noteq> [] \<longrightarrow> elementsOk xs"
  "jsonProperties ps \<longrightarrow> ps \<noteq> [] \<longrightarrow> membersOk ps"
proof (induction v and xs and ps rule: jsonValue_jsonValues_jsonProperties.induct)
  case (6 xs)
  then show ?case by (simp add: valueOk_JArr)
next
  case (7 ps)
  then show ?case by (simp add: valueOk_JObj)
next
  case (11 x xs)
  then show ?case by (simp add: elementsOk_Cons)
next
  case (13 k v ps)
  then show ?case by (simp add: membersOk_Cons)
qed (simp_all add: valueOk_JNull valueOk_JBool valueOk_JNum valueOk_JStr)

theorem JSON_roundtrip:
  assumes "jsonValue v"
  shows "\<exists>s. JSON_stringify v = Some s \<and> s \<noteq> [] \<and> JSON_parse s = Inr v"
proof -
  obtain s where s: "serializeJSONProperty v = Some s"
    using jsonValue_serializes[OF assms] by blast
  have ne: "s \<noteq> []" using serialize_start[OF assms s] by auto
  have "valueOk v" using parse_serialized(1) assms by blast
  then have "parseValue (length s) (s @ []) = Some (v, [])"
    by (intro valueOkD[OF _ s]) (simp_all add: numberEnd_simps)
  then have "JSON_parse s = Inr v"
    by (simp add: JSON_parse_def skipWhiteSpace_def)
  then show ?thesis using s ne by (simp add: JSON_stringify_def)
qed

section \<open>Properties of registration\<close>

lemma routeId_inject: "routeId scope a = routeId scope b \<longleftrightarrow> a = b"
  by (simp add: routeId_def)

lemma routeId_not_inherited: "routeId scope name \<notin> set objectPrototypeKeys"
proof -
  have "CHR '' '' \<in> set (routeId scope name)" by (simp add: routeId_def)
  moreover have "\<forall>k \<in> set objectPrototypeKeys. CHR '' '' \<notin> set k"
    by (simp add: objectPrototypeKeys_def)
  ultimately show ?thesis by blast
qed

lemma inRoutes_routeId:
  "inRoutes (routeId scope name) routes \<longleftrightarrow> routes (routeId scope name) \<noteq> None"
  by (simp add: inRoutes_def routeId_not_inherited)

lemma conformArgumentsThrough_duplicate:
  assumes "routes (routeId scope name) \<noteq> None"
  shows "conformArgumentsThrough scope handlers ((name, p) # post) routes =
           (Some (JError ''Error''
                    (''Route ['' @ routeId scope name @ ''] was declared twice and is not unique.'')),
            routes)"
  using assms by (simp add: inRoutes_routeId)

lemma conformArgumentsThrough_fresh:
  assumes "routes (routeId scope name) = None"
  shows "conformArgumentsThrough scope handlers ((name, p) # rest) routes =
           conformArgumentsThrough scope handlers rest
             (routes(routeId scope name \<mapsto> \<lparr>parser = toParser p, handler = handlers name\<rparr>))"
  using assms by (simp add: inRoutes_routeId)

lemma fresh_after_insert:
  assumes "m \<notin> fst ` set pre"
    and "\<forall>n \<in> fst ` set pre. routes (routeId scope n) = None"
  shows "\<forall>n \<in> fst ` set pre. (routes(routeId scope m \<mapsto> e)) (routeId scope n) = None"
proof
  fix n
  assume n: "n \<in> fst ` set pre"
  then have "n \<noteq> m" using assms(1) by blast
  moreover have "routes (routeId scope n) = None" using assms(2) n by (rule bspec)
  ultimately show "(routes(routeId scope m \<mapsto> e)) (routeId scope n) = None"
    by (simp add: routeId_inject)
qed

text \<open>
  C4. Registering a batch in which the entries \<open>pre\<close> are new and the next name gives
  an identifier that is already registered throws an error that names exactly
  that identifier; the entries of \<open>pre\<close> are in the registry afterwards, and every
  other identifier, among them all routes registered before and the ones after the
  duplicate in the batch, is as it was. With \<open>pre\<close> empty this is the registration
  of a pair that is already present.
\<close>

theorem duplicate_registration_aborts:
  assumes "distinct (map fst pre)"
    and "\<forall>n \<in> fst ` set pre. routes (routeId scope n) = None"
    and "routes (routeId scope name) \<noteq> None"
  shows "fst (conformArgumentsThrough scope handlers (pre @ (name, p) # post) routes) =
           Some (JError ''Error''
                   (''Route ['' @ routeId scope name @ ''] was declared twice and is not unique.'')) \<and>
         (\<forall>(n, q) \<in> set pre.
            snd (conformArgumentsThrough scope handlers (pre @ (name, p) # post) routes) (routeId scope n) =
              Some \<lparr>parser = toParser q, handler = handlers n\<rparr>) \<and>
         (\<forall>i. i \<notin> routeId scope ` fst ` set pre \<longrightarrow>
            snd (conformArgumentsThrough scope handlers (pre @ (name, p) # post) routes) i = routes i)"
  using assms
proof (induction pre arbitrary: routes)
  case Nil
  then show ?case by (simp add: inRoutes_routeId)
next
  case (Cons a pre)
  obtain m q where a: "a = (m, q)" by (cases a)
  let ?e = "\<lparr>parser = toParser q, handler = handlers m\<rparr>"
  let ?r = "routes(routeId scope m \<mapsto> ?e)"
  let ?res = "conformArgumentsThrough scope handlers (pre @ (name, p) # post) ?r"
  have m: "m \<notin> fst ` set pre" and d: "distinct (map fst pre)" using Cons.prems(1) a by auto
  have base: "\<forall>n \<in> fst ` set pre. routes (routeId scope n) = None" using Cons.prems(2) by simp
  have fresh: "\<forall>n \<in> fst ` set pre. ?r (routeId scope n) = None"
    by (rule fresh_after_insert[OF m base])
  have dup: "?r (routeId scope name) \<noteq> None" using Cons.prems(3) by simp
  have none: "routes (routeId scope m) = None" using Cons.prems(2) a by simp
  have step: "conformArgumentsThrough scope handlers ((a # pre) @ (name, p) # post) routes = ?res"
    using none by (simp add: a inRoutes_routeId)
  note IH = Cons.IH[OF d fresh dup]
  have A: "fst ?res = Some (JError ''Error''
                   (''Route ['' @ routeId scope name @ ''] was declared twice and is not unique.''))"
    using IH by blast
  have B: "\<forall>(n, q') \<in> set pre. snd ?res (routeId scope n) =
        Some \<lparr>parser = toParser q', handler = handlers n\<rparr>"
    using IH by blast
  have C: "\<forall>i. i \<notin> routeId scope ` fst ` set pre \<longrightarrow> snd ?res i = ?r i"
    using IH by blast
  have "routeId scope m \<notin> routeId scope ` fst ` set pre"
    using m by (simp add: image_iff routeId_inject)
  then have Bm: "snd ?res (routeId scope m) = Some ?e" using C by simp
  have C': "\<forall>i. i \<notin> routeId scope ` fst ` set (a # pre) \<longrightarrow> snd ?res i = routes i"
  proof (intro allI impI)
    fix i assume "i \<notin> routeId scope ` fst ` set (a # pre)"
    then have "i \<notin> routeId scope ` fst ` set pre" and "i \<noteq> routeId scope m"
      using a by auto
    then show "snd ?res i = routes i" using C by simp
  qed
  show ?case unfolding step using A B Bm C' a by simp
qed

theorem duplicate_registration_aborts_witness:
  "distinct (map fst [(''a'', AssumeTypesafe :: unit parserSpec)]) \<and>
   answerRouter (routeId ''s'' ''a'') = None \<and>
   answerRouter (routeId ''s'' ''r'') \<noteq> None \<and>
   fst (conformArgumentsThrough ''s''
          [''a'' \<mapsto> (\<lambda>this args'. Resolves JNull), ''r'' \<mapsto> (\<lambda>this args'. Resolves JNull),
           ''b'' \<mapsto> (\<lambda>this args'. Resolves JNull)]
          [(''a'', AssumeTypesafe), (''r'', AssumeTypesafe), (''b'', AssumeTypesafe)] answerRouter) =
     Some (JError ''Error'' ''Route [s r] was declared twice and is not unique.'') \<and>
   snd (conformArgumentsThrough ''s''
          [''a'' \<mapsto> (\<lambda>this args'. Resolves JNull), ''r'' \<mapsto> (\<lambda>this args'. Resolves JNull),
           ''b'' \<mapsto> (\<lambda>this args'. Resolves JNull)]
          [(''a'', AssumeTypesafe), (''r'', AssumeTypesafe), (''b'', AssumeTypesafe)] answerRouter) ''s a'' =
     Some \<lparr>parser = toParser AssumeTypesafe, handler = Some (\<lambda>this args'. Resolves JNull)\<rparr> \<and>
   snd (conformArgumentsThrough ''s''
          [''a'' \<mapsto> (\<lambda>this args'. Resolves JNull), ''r'' \<mapsto> (\<lambda>this args'. Resolves JNull),
           ''b'' \<mapsto> (\<lambda>this args'. Resolves JNull)]
          [(''a'', AssumeTypesafe), (''r'', AssumeTypesafe), (''b'', AssumeTypesafe)] answerRouter) ''s r'' =
     answerRouter ''s r'' \<and>
   snd (conformArgumentsThrough ''s''
          [''a'' \<mapsto> (\<lambda>this args'. Resolves JNull), ''r'' \<mapsto> (\<lambda>this args'. Resolves JNull),
           ''b'' \<mapsto> (\<lambda>this args'. Resolves JNull)]
          [(''a'', AssumeTypesafe), (''r'', AssumeTypesafe), (''b'', AssumeTypesafe)] answerRouter) ''s b'' = None"
  using duplicate_registration_aborts
          [of "[(''a'', AssumeTypesafe)]" answerRouter "''s''" "''r''"
              "[''a'' \<mapsto> (\<lambda>this args'. Resolves JNull), ''r'' \<mapsto> (\<lambda>this args'. Resolves JNull),
                ''b'' \<mapsto> (\<lambda>this args'. Resolves JNull)]"
              AssumeTypesafe "[(''b'', AssumeTypesafe)]"]
  by (simp add: answerRouter_def routeId_def inRoutes_def objectPrototypeKeys_def)

section \<open>Properties of dispatch\<close>

lemma getRoute_Own: "routes i = Some r \<Longrightarrow> getRoute routes i = Own r"
  by (simp add: getRoute_def)

lemma answerRouter_routes:
  "answerRouter = [''s r'' \<mapsto> \<lparr>parser = (\<lambda>this args'. Inr args'),
                                  handler = Some (\<lambda>this args'. Resolves (JNum 42))\<rparr>]"
  by (simp add: answerRouter_def routeId_def inRoutes_def objectPrototypeKeys_def)

lemma failingRouter_routes:
  "failingRouter ''scope route1'' =
     Some \<lparr>parser = (\<lambda>this args'. Inr args'), handler = Some (\<lambda>this args'. Rejects alwaysFail)\<rparr>"
  "failingRouter ''scope route2'' =
     Some \<lparr>parser = (\<lambda>this args'. Inr args'), handler = Some (\<lambda>this args'. Throws alwaysFail)\<rparr>"
  "failingRouter ''scope route3'' =
     Some \<lparr>parser = (\<lambda>this args'. Inl alwaysFail),
           handler = Some (\<lambda>this args'. Resolves (JStr ''route3''))\<rparr>"
  by (simp_all add: failingRouter_def routeId_def inRoutes_def objectPrototypeKeys_def)

lemma whoamiRouter_routes:
  "whoamiRouter ''s whoami'' =
     Some \<lparr>parser = (\<lambda>this args'. Inr [thisCtx this]),
           handler = Some (\<lambda>this args'. Resolves (JArr (thisCtx this # args')))\<rparr>"
  by (simp add: whoamiRouter_def routeId_def inRoutes_def objectPrototypeKeys_def)

text \<open>
  C1. The specification says that for every call the dispatcher resolves to a success or to a failure
  of one of the three kinds, also when the registered handler throws instead of
  returning a rejected promise. The code guards the handler's promise with
  \<^verbatim>\<open>.then(...).catch(...)\<close> only, so a handler that throws makes the dispatcher's
  own promise reject: on the router whose \<^verbatim>\<open>scope route2\<close> throws, the call is
  rejected with the thrown error and no result is produced.
\<close>

theorem handler_throw_escapes:
  "fst (routeFromTransportInfallibly failingRouter \<lparr>ctx = (), rpc_id = ''scope route2'', args = []\<rparr>) =
     Rejected alwaysFail"
  by (simp add: routeFromTransportInfallibly_def getRoute_Own failingRouter_routes)

lemma dispatch_fulfils:
  assumes "\<forall>route. routes (rpc_id rpc) = Some route \<longrightarrow>
             (\<exists>h. handler route = Some h \<and> (\<forall>this a e. h this a \<noteq> Throws e))"
  shows "\<exists>r. fst (routeFromTransportInfallibly routes rpc) = Fulfilled r \<and>
           (case r of
              Ok v \<Rightarrow> True
            | Err e \<Rightarrow> (\<exists>m. e = NonExistentRoute m) \<or> (\<exists>x. e = ArgumentParsingFailed x) \<or>
                         (\<exists>x. e = HandlerErrored x))"
proof (cases "getRoute routes (rpc_id rpc)")
  case (Own route)
  then have r: "routes (rpc_id rpc) = Some route"
    by (auto simp: getRoute_def split: option.splits if_splits)
  then obtain h where h: "handler route = Some h" "\<forall>this a e. h this a \<noteq> Throws e"
    using assms by blast
  show ?thesis
  proof (cases "parser route None (args rpc)")
    case (Inl e)
    then show ?thesis using Own by (simp add: routeFromTransportInfallibly_def)
  next
    case (Inr a)
    then show ?thesis using Own h
      by (cases "h (Some (ctx rpc)) a") (simp_all add: routeFromTransportInfallibly_def)
  qed
next
  case Inherited
  then show ?thesis by (simp add: routeFromTransportInfallibly_def)
next
  case Absent
  then show ?thesis by (simp add: routeFromTransportInfallibly_def)
qed

text \<open>
  C3. The specification says that the parser is invoked with the arguments spread and with the
  context bound as \<^verbatim>\<open>this[ctx]\<close>. The code calls \<^verbatim>\<open>route.parser(...rpc.args)\<close>,
  whose receiver is the route entry: the parser gets the arguments, but
  \<^verbatim>\<open>this[ctx]\<close> is \<^verbatim>\<open>undefined\<close> there, while the handler does see the context. On a
  route whose parser returns \<^verbatim>\<open>[this[ctx]]\<close>, a call with context \<^verbatim>\<open>"admin"\<close> hands
  \<^verbatim>\<open>[undefined]\<close> to the handler.
\<close>

theorem parser_receiver_lacks_ctx:
  "routeFromTransportInfallibly whoamiRouter \<lparr>ctx = JStr ''admin'', rpc_id = ''s whoami'', args = [JNum 1]\<rparr> =
     (Fulfilled (Ok (JArr [JStr ''admin'', JUndefined])),
      [ParserCalled None [JNum 1], HandlerCalled (Some (JStr ''admin'')) [JUndefined]])"
  by (simp add: routeFromTransportInfallibly_def getRoute_Own whoamiRouter_routes thisCtx_def)

lemma parser_called_first:
  assumes "routes (rpc_id rpc) = Some route"
  shows "hd (snd (routeFromTransportInfallibly routes rpc)) = ParserCalled None (args rpc)"
  using assms
  by (simp add: routeFromTransportInfallibly_def getRoute_Own split: sum.splits option.splits)

text \<open>
  C5. When the parser of the registered route throws \<open>e\<close> on the arguments of the
  call, the dispatcher resolves to the failure \<^verbatim>\<open>argument parsing failed\<close> carrying
  \<open>e\<close> itself, and the parser call is the only call made: the handler is not
  invoked.
\<close>

theorem parser_failure_reported:
  assumes "routes (rpc_id rpc) = Some route"
    and "parser route None (args rpc) = Inl e"
  shows "routeFromTransportInfallibly routes rpc =
           (Fulfilled (Err (ArgumentParsingFailed e)), [ParserCalled None (args rpc)])"
  using assms by (simp add: routeFromTransportInfallibly_def getRoute_Own)

theorem parser_failure_reported_witness:
  "failingRouter (rpc_id \<lparr>ctx = (), rpc_id = ''scope route3'', args = [JNum 1]\<rparr>) =
     Some \<lparr>parser = (\<lambda>this args'. Inl alwaysFail),
           handler = Some (\<lambda>this args'. Resolves (JStr ''route3''))\<rparr> \<and>
   routeFromTransportInfallibly failingRouter \<lparr>ctx = (), rpc_id = ''scope route3'', args = [JNum 1]\<rparr> =
     (Fulfilled (Err (ArgumentParsingFailed alwaysFail)), [ParserCalled None [JNum 1]])"
  using parser_failure_reported
          [of failingRouter "\<lparr>ctx = (), rpc_id = ''scope route3'', args = [JNum 1]\<rparr>"
              "\<lparr>parser = (\<lambda>this args'. Inl alwaysFail),
                handler = Some (\<lambda>this args'. Resolves (JStr ''route3''))\<rparr>" alwaysFail]
  by (simp add: failingRouter_routes)

text \<open>
  C6. When the route is registered and its parser returns arguments \<open>a\<close>: if the
  promise of the handler rejects with \<open>e\<close>, the dispatcher resolves to the failure
  \<^verbatim>\<open>handler errored\<close> carrying \<open>e\<close> itself; if it resolves with \<open>v\<close>, the
  dispatcher resolves to the success carrying \<open>v\<close> itself.
\<close>

theorem handler_outcome_reported:
  assumes "routes (rpc_id rpc) = Some route"
    and "parser route None (args rpc) = Inr a"
    and "handler route = Some h"
  shows "(h (Some (ctx rpc)) a = Rejects e \<longrightarrow>
            fst (routeFromTransportInfallibly routes rpc) = Fulfilled (Err (HandlerErrored e))) \<and>
         (h (Some (ctx rpc)) a = Resolves v \<longrightarrow>
            fst (routeFromTransportInfallibly routes rpc) = Fulfilled (Ok v))"
  using assms by (simp add: routeFromTransportInfallibly_def getRoute_Own)

theorem handler_outcome_reported_witness:
  "fst (routeFromTransportInfallibly failingRouter \<lparr>ctx = (), rpc_id = ''scope route1'', args = []\<rparr>) =
     Fulfilled (Err (HandlerErrored alwaysFail)) \<and>
   fst (routeFromTransportInfallibly answerRouter \<lparr>ctx = (), rpc_id = ''s r'', args = []\<rparr>) =
     Fulfilled (Ok (JNum 42))"
  using handler_outcome_reported
          [of failingRouter "\<lparr>ctx = (), rpc_id = ''scope route1'', args = []\<rparr>"
              "\<lparr>parser = (\<lambda>this args'. Inr args'), handler = Some (\<lambda>this args'. Rejects alwaysFail)\<rparr>"
              "[]" "\<lambda>this args'. Rejects alwaysFail" alwaysFail "JNull"]
        handler_outcome_reported
          [of answerRouter "\<lparr>ctx = (), rpc_id = ''s r'', args = []\<rparr>"
              "\<lparr>parser = (\<lambda>this args'. Inr args'), handler = Some (\<lambda>this args'. Resolves (JNum 42))\<rparr>"
              "[]" "\<lambda>this args'. Resolves (JNum 42)" "JNull" "JNum 42"]
  by (simp add: failingRouter_routes answerRouter_routes)

lemma unregistered_route:
  assumes "routes (rpc_id rpc) = None" and "rpc_id rpc \<notin> set objectPrototypeKeys"
  shows "routeFromTransportInfallibly routes rpc =
           (Fulfilled (Err (NonExistentRoute (''Route ['' @ rpc_id rpc @ ''] does not exist!''))), [])"
  using assms by (simp add: routeFromTransportInfallibly_def getRoute_def)

lemma scenario_missing:
  "routeFromTransportInfallibly answerRouter \<lparr>ctx = (), rpc_id = ''s missing'', args = []\<rparr> =
     (Fulfilled (Err (NonExistentRoute ''Route [s missing] does not exist!'')), [])"
  by (simp add: routeFromTransportInfallibly_def getRoute_def answerRouter_routes objectPrototypeKeys_def)

text \<open>
  C7. The specification says that every identifier that is not registered yields the failure
  \<^verbatim>\<open>non existent route\<close> naming it. \<^verbatim>\<open>this.routes[rpc.id]\<close> also finds what the
  registry object inherits from \<^verbatim>\<open>Object.prototype\<close>: for the identifier
  \<^verbatim>\<open>toString\<close>, which is not registered, the lookup is truthy, calling its
  \<^verbatim>\<open>parser\<close> throws inside the \<^verbatim>\<open>try\<close> block, and the dispatcher reports
  \<^verbatim>\<open>argument parsing failed\<close> instead. (For an identifier that is neither
  registered nor such a name, and for \<^verbatim>\<open>s missing\<close> in particular, the failure is the
  one stated: \<open>unregistered_route\<close>, \<open>scenario_missing\<close>.)
\<close>

theorem inherited_name_is_not_missing:
  "answerRouter ''toString'' = None \<and>
   routeFromTransportInfallibly answerRouter \<lparr>ctx = (), rpc_id = ''toString'', args = []\<rparr> =
     (Fulfilled (Err (ArgumentParsingFailed (JError ''TypeError'' ''route.parser is not a function''))), [])"
  by (simp add: routeFromTransportInfallibly_def getRoute_def answerRouter_routes objectPrototypeKeys_def
      notAFunction_def)

section \<open>Properties of the HTTP transport\<close>

lemma upt_from: "[n..<n + length (x # xs)] = n # [Suc n..<Suc n + length xs]"
  by (simp add: upt_conv_Cons del: upt_Suc)

lemma formData_set_fresh: "name \<notin> fst ` set fd \<Longrightarrow> formData_set fd name v = fd @ [(name, v)]"
  by (induction fd) auto

lemma encodeArgs_entries:
  assumes "\<forall>k \<in> fst ` set b. \<forall>i \<ge> n. k \<noteq> showNat i"
  shows "encodeArgs (zip xs [n..<n + length xs]) (b, t) =
           (b @ map (\<lambda>(v, i). (showNat i, partOf v)) (zip xs [n..<n + length xs]), t @ map tagOf xs)"
  using assms
proof (induction xs arbitrary: n b t)
  case Nil
  then show ?case by simp
next
  case (Cons x xs)
  let ?b = "b @ [(showNat n, partOf x)]"
  have up: "[n..<n + length (x # xs)] = n # [Suc n..<Suc n + length xs]"
    by (rule upt_from)
  have "showNat n \<notin> fst ` set b"
  proof
    assume "showNat n \<in> fst ` set b"
    with Cons.prems have "\<forall>i \<ge> n. showNat n \<noteq> showNat i" by (rule bspec)
    then show False by blast
  qed
  then have set: "formData_set b (showNat n) (partOf x) = ?b" by (rule formData_set_fresh)
  have "\<forall>k \<in> fst ` set ?b. \<forall>i \<ge> Suc n. k \<noteq> showNat i"
  proof (intro ballI allI impI)
    fix k i
    assume k: "k \<in> fst ` set ?b" and i: "Suc n \<le> i"
    then consider "k \<in> fst ` set b" | "k = showNat n" by auto
    then show "k \<noteq> showNat i"
    proof cases
      case 1
      with Cons.prems have "\<forall>i \<ge> n. k \<noteq> showNat i" by (rule bspec)
      then show ?thesis using i by simp
    next
      case 2
      then show ?thesis using i by (simp add: showNat_inject)
    qed
  qed
  then have "encodeArgs (zip xs [Suc n..<Suc n + length xs]) (?b, t @ [tagOf x]) =
               (?b @ map (\<lambda>(v, i). (showNat i, partOf v)) (zip xs [Suc n..<Suc n + length xs]),
                (t @ [tagOf x]) @ map tagOf xs)"
    by (rule Cons.IH)
  then show ?case unfolding up by (simp add: set)
qed

lemma map_of_entries:
  "j < length xs \<Longrightarrow>
     map_of (map (\<lambda>(v, i). (showNat i, partOf v)) (zip xs [n..<n + length xs])) (showNat (n + j)) =
       Some (partOf (xs ! j))"
proof (induction xs arbitrary: n j)
  case Nil
  then show ?case by simp
next
  case (Cons x xs)
  have up: "[n..<n + length (x # xs)] = n # [Suc n..<Suc n + length xs]"
    by (rule upt_from)
  show ?case
  proof (cases j)
    case 0
    then show ?thesis unfolding up by simp
  next
    case (Suc j')
    then have "j' < length xs" using Cons.prems by simp
    then have "map_of (map (\<lambda>(v, i). (showNat i, partOf v)) (zip xs [Suc n..<Suc n + length xs]))
                 (showNat (Suc n + j')) = Some (partOf (xs ! j'))"
      by (rule Cons.IH)
    then show ?thesis unfolding up using Suc by (simp add: showNat_inject)
  qed
qed

lemma jsonValue_not_blob: "jsonValue v \<Longrightarrow> \<not> isBlob v"
  by (cases v) simp_all

lemma partOf_json:
  assumes "jsonValue v"
  shows "\<exists>s. partOf v = EString s \<and> s \<noteq> [] \<and> JSON_parse s = Inr v"
proof -
  obtain s where s: "JSON_stringify v = Some s" "s \<noteq> []" "JSON_parse s = Inr v"
    using JSON_roundtrip[OF assms] by blast
  have "partOf v = EString s" using assms s(1) by (cases v) simp_all
  then show ?thesis using s by blast
qed

lemma decodeArgs_step_blob:
  assumes "formData_get fd (showNat i) = Some (partOf (JBlob b))"
  shows "decodeArgs rid argtype fd ((tagOf (JBlob b), i) # rest) acc =
           decodeArgs rid argtype fd rest (acc @ [JBlob b])"
  using assms by (simp add: tagOf_def)

lemma decodeArgs_step_json:
  assumes "formData_get fd (showNat i) = Some (partOf v)" and "jsonValue v"
  shows "decodeArgs rid argtype fd ((tagOf v, i) # rest) acc =
           decodeArgs rid argtype fd rest (acc @ [v])"
proof -
  obtain s where s: "partOf v = EString s" "s \<noteq> []" "JSON_parse s = Inr v"
    using partOf_json[OF assms(2)] by blast
  have "tagOf v = CHR ''j''" using jsonValue_not_blob[OF assms(2)] by (simp add: tagOf_def)
  then show ?thesis using assms(1) s by simp
qed

lemma decodeArgs_step:
  assumes "formData_get fd (showNat i) = Some (partOf v)" and "isBlob v \<or> jsonValue v"
  shows "decodeArgs rid argtype fd ((tagOf v, i) # rest) acc =
           decodeArgs rid argtype fd rest (acc @ [v])"
proof (cases "isBlob v")
  case True
  then obtain b where "v = JBlob b" by (cases v) simp_all
  then show ?thesis using assms(1) decodeArgs_step_blob by blast
next
  case False
  then have "jsonValue v" using assms(2) by simp
  then show ?thesis using assms(1) by (rule decodeArgs_step_json[rotated])
qed

lemma decodeArgs_entries:
  assumes "\<forall>j < length ys. formData_get fd (showNat (n + j)) = Some (partOf (ys ! j))"
    and "\<forall>v \<in> set ys. isBlob v \<or> jsonValue v"
  shows "decodeArgs rid argtype fd (zip (map tagOf ys) [n..<n + length ys]) acc = Args (acc @ ys)"
  using assms
proof (induction ys arbitrary: n acc)
  case Nil
  then show ?case by simp
next
  case (Cons y ys)
  have up: "[n..<n + length (y # ys)] = n # [Suc n..<Suc n + length ys]"
    by (rule upt_from)
  have "formData_get fd (showNat (n + 0)) = Some (partOf ((y # ys) ! 0))"
    using Cons.prems(1) by blast
  then have here: "formData_get fd (showNat n) = Some (partOf y)" by simp
  have y: "isBlob y \<or> jsonValue y" using Cons.prems(2) by simp
  have later: "\<forall>j < length ys. formData_get fd (showNat (Suc n + j)) = Some (partOf (ys ! j))"
  proof (intro allI impI)
    fix j assume "j < length ys"
    then have "formData_get fd (showNat (n + Suc j)) = Some (partOf ((y # ys) ! Suc j))"
      using Cons.prems(1) by (metis Suc_less_eq length_Cons)
    then show "formData_get fd (showNat (Suc n + j)) = Some (partOf (ys ! j))" by simp
  qed
  have ys: "\<forall>v \<in> set ys. isBlob v \<or> jsonValue v" using Cons.prems(2) by simp
  have "decodeArgs rid argtype fd (zip (map tagOf (y # ys)) [n..<n + length (y # ys)]) acc =
        decodeArgs rid argtype fd ((tagOf y, n) # zip (map tagOf ys) [Suc n..<Suc n + length ys]) acc"
    unfolding up by simp
  also have "\<dots> = decodeArgs rid argtype fd (zip (map tagOf ys) [Suc n..<Suc n + length ys]) (acc @ [y])"
    by (rule decodeArgs_step[OF here y])
  also have "\<dots> = Args ((acc @ [y]) @ ys)"
    by (rule Cons.IH[OF later ys])
  finally show ?case by simp
qed

lemma fetchRequest_parts:
  "headers (fetchRequest config_url rpc) =
     [(''x-simplycall-id'', rpc_id rpc), (''x-simplycall-argtype'', map tagOf (args rpc)),
      (''Content-Type'', ''multipart/form-data'')]"
  "body (fetchRequest config_url rpc) =
     map (\<lambda>(v, i). (showNat i, partOf v)) (zip (args rpc) [0..<length (args rpc)])"
  using encodeArgs_entries[of "[]" 0 "args rpc" "[]"]
  by (simp_all add: fetchRequest_def)

text \<open>
  On parts that arrive unchanged, the loop of the receive side inverts the loop of
  the send side, for \<^verbatim>\<open>Blob\<close>s and for the JSON values of the model.
\<close>

lemma decode_inverts_encode:
  assumes "\<forall>v \<in> set (args rpc). isBlob v \<or> jsonValue v"
  shows "map_of (headers (fetchRequest config_url rpc)) ''x-simplycall-argtype'' =
           Some (map tagOf (args rpc)) \<and>
         decodeArgs rid (map tagOf (args rpc)) (body (fetchRequest config_url rpc))
           (zip (map tagOf (args rpc)) [0..<length (map tagOf (args rpc))]) [] = Args (args rpc)"
proof -
  let ?fd = "body (fetchRequest config_url rpc)"
  have "\<forall>j < length (args rpc). formData_get ?fd (showNat (0 + j)) = Some (partOf (args rpc ! j))"
    using map_of_entries[of _ "args rpc" 0]
    by (simp add: fetchRequest_parts(2) formData_get_def)
  then have "decodeArgs rid (map tagOf (args rpc)) ?fd
               (zip (map tagOf (args rpc)) [0..<0 + length (args rpc)]) [] = Args ([] @ args rpc)"
    using assms by (rule decodeArgs_entries)
  then show ?thesis by (simp add: fetchRequest_parts(1))
qed

text \<open>
  C8. The specification says that an argument list sent through the HTTP transport
  is decoded by the receive side to the same list. The send side sets the header
  \<^verbatim>\<open>Content-Type: multipart/form-data\<close> itself, so no boundary is announced,
  \<^verbatim>\<open>request.formData()\<close> rejects on the receive side, and \<^verbatim>\<open>onRequestInfallibly\<close>
  returns that rejection as its error for every request the send side builds: no
  argument is decoded and the dispatcher is not called. (The two loops do invert
  each other on parts that arrive: \<open>decode_inverts_encode\<close>.)
\<close>

theorem sent_request_is_rejected:
  "formData (transmitted (fetchRequest config_url rpc)) = Inl formDataTypeError \<and>
   onRequestInfallibly dispatch (transmitted (fetchRequest config_url rpc)) c =
     Fulfilled (Err (FormDataRejected formDataTypeError))"
  by (simp add: onRequestInfallibly_def transmitted_def fetchRequest_parts(1) hasBoundary_def)

text \<open>Whatever the response, a send that resolves resolves with \<^verbatim>\<open>undefined\<close>.\<close>

lemma send_resolves_undefined:
  "sendThroughTransportFallibly config_url fetch rpc = Fulfilled v \<Longrightarrow> v = JUndefined"
  by (auto simp: sendThroughTransportFallibly_def split: promise.splits)

text \<open>
  C9. Two calls of the send operation with the same identifier and arguments and
  any two contexts build the same request (URL, method, headers and body), and
  with the same \<^verbatim>\<open>fetch\<close> they have the same outcome.
\<close>

theorem ctx_not_transmitted:
  "fetchRequest config_url \<lparr>ctx = c1, rpc_id = i, args = a\<rparr> =
     fetchRequest config_url \<lparr>ctx = c2, rpc_id = i, args = a\<rparr> \<and>
   sendThroughTransportFallibly config_url fetch \<lparr>ctx = c1, rpc_id = i, args = a\<rparr> =
     sendThroughTransportFallibly config_url fetch \<lparr>ctx = c2, rpc_id = i, args = a\<rparr>"
  by (simp add: fetchRequest_def sendThroughTransportFallibly_def split: promise.splits)

text \<open>
  C2. The specification says that the send operation resolves with the decoded response value. The
  code awaits the promise that carries the decoded value and returns nothing: for
  the route that answers 42, the response decodes to 42 and the send operation
  resolves with \<^verbatim>\<open>undefined\<close>.
\<close>

theorem send_discards_response:
  "(case server answerRouter () (fetchRequest ''/rpc'' \<lparr>ctx = (), rpc_id = ''s r'', args = []\<rparr>) of
      Fulfilled result \<Rightarrow> onResult ''s r'' result
    | Rejected e \<Rightarrow> Rejected e) = Fulfilled (JNum 42) \<and>
   sendThroughTransportFallibly ''/rpc'' (server answerRouter ())
     \<lparr>ctx = (), rpc_id = ''s r'', args = []\<rparr> = Fulfilled JUndefined"
  by code_simp

lemma decodeArgs_agree:
  assumes "\<forall>(t, i) \<in> set tis. formData_get fd (showNat i) = formData_get fd' (showNat i)"
  shows "decodeArgs rid argtype fd tis acc = decodeArgs rid argtype fd' tis acc"
  using assms
proof (induction tis arbitrary: acc)
  case Nil
  then show ?case by simp
next
  case (Cons p tis)
  obtain t i where p: "p = (t, i)" by (cases p)
  have here: "formData_get fd (showNat i) = formData_get fd' (showNat i)"
    using Cons.prems p by simp
  have rest: "\<And>acc'. decodeArgs rid argtype fd tis acc' = decodeArgs rid argtype fd' tis acc'"
    using Cons.IH Cons.prems by simp
  show ?case unfolding p decodeArgs.simps here rest ..
qed

lemma decodeArgs_length:
  "decodeArgs rid argtype fd tis acc = Args as \<Longrightarrow> length as = length acc + length tis"
proof (induction tis arbitrary: acc)
  case Nil
  then show ?case by simp
next
  case (Cons p tis)
  obtain t i where p: "p = (t, i)" by (cases p)
  from Cons.prems obtain acc' where "decodeArgs rid argtype fd tis acc' = Args as"
    and "length acc' = Suc (length acc)"
    unfolding p by (auto split: if_splits option.splits sum.splits)
  then show ?case using Cons.IH by fastforce
qed

lemma formData_get_extra:
  assumes "k \<notin> fst ` set extra"
  shows "formData_get (pre @ extra @ post) k = formData_get (pre @ post) k"
proof -
  have "map_of extra k = None" using assms by (simp add: map_of_eq_None_iff)
  then show ?thesis by (simp add: formData_get_def map_add_def split: option.splits)
qed

text \<open>
  C10. The receive side decodes one argument per character of the tag string:
  a successful decoding has as many arguments as the tag string has characters,
  and parts at positions from the length of the tag string on, wherever they stand
  in the body, change neither the decoding nor the result of the request.
\<close>

theorem extra_parts_ignored:
  assumes "header request ''x-simplycall-argtype'' = Some argtype"
    and "\<forall>(k, e) \<in> set extra. \<exists>j \<ge> length argtype. k = showNat j"
  shows "(\<forall>rid. decodeArgs rid argtype (pre @ extra @ post) (zip argtype [0..<length argtype]) [] =
                decodeArgs rid argtype (pre @ post) (zip argtype [0..<length argtype]) []) \<and>
         onRequestInfallibly dispatch (request\<lparr>formData := Inr (pre @ extra @ post)\<rparr>) c =
           onRequestInfallibly dispatch (request\<lparr>formData := Inr (pre @ post)\<rparr>) c \<and>
         (\<forall>rid fd as. decodeArgs rid argtype fd (zip argtype [0..<length argtype]) [] = Args as \<longrightarrow>
                length as = length argtype)"
proof -
  have same: "\<forall>(t, i) \<in> set (zip argtype [0..<length argtype]).
      formData_get (pre @ extra @ post) (showNat i) = formData_get (pre @ post) (showNat i)"
  proof (intro ballI, clarify)
    fix t i
    assume "(t, i) \<in> set (zip argtype [0..<length argtype])"
    then have i: "i < length argtype" by (auto dest: set_zip_rightD)
    have "showNat i \<notin> fst ` set extra"
    proof
      assume "showNat i \<in> fst ` set extra"
      then obtain e where "(showNat i, e) \<in> set extra" by auto
      then obtain j where "length argtype \<le> j" and "showNat i = showNat j"
        using assms(2) by blast
      then show False using i by (simp add: showNat_inject)
    qed
    then show "formData_get (pre @ extra @ post) (showNat i) = formData_get (pre @ post) (showNat i)"
      by (rule formData_get_extra)
  qed
  have decode: "\<And>rid. decodeArgs rid argtype (pre @ extra @ post) (zip argtype [0..<length argtype]) [] =
                decodeArgs rid argtype (pre @ post) (zip argtype [0..<length argtype]) []"
    by (rule decodeArgs_agree[OF same])
  have "onRequestInfallibly dispatch (request\<lparr>formData := Inr (pre @ extra @ post)\<rparr>) c =
          onRequestInfallibly dispatch (request\<lparr>formData := Inr (pre @ post)\<rparr>) c"
    using assms(1) by (simp add: onRequestInfallibly_def decode split: option.splits)
  moreover have "\<forall>rid fd as. decodeArgs rid argtype fd (zip argtype [0..<length argtype]) [] = Args as \<longrightarrow>
                length as = length argtype"
    using decodeArgs_length by fastforce
  ultimately show ?thesis using decode by blast
qed

theorem extra_parts_ignored_witness:
  "header \<lparr>header = [''x-simplycall-id'' \<mapsto> ''s r'', ''x-simplycall-argtype'' \<mapsto> ''j''],
           formData = Inr []\<rparr> ''x-simplycall-argtype'' = Some ''j'' \<and>
   ''1'' = showNat 1 \<and> ''7'' = showNat 7 \<and>
   decodeArgs ''s r'' ''j'' ([(''0'', EString ''5'')] @ [(''1'', EString ''oops''), (''7'', EFile [1])] @ [])
     (zip ''j'' [0..<length ''j'']) [] =
     decodeArgs ''s r'' ''j'' ([(''0'', EString ''5'')] @ []) (zip ''j'' [0..<length ''j'']) [] \<and>
   decodeArgs ''s r'' ''j'' ([(''0'', EString ''5'')] @ []) (zip ''j'' [0..<length ''j'']) [] = Args [JNum 5] \<and>
   onRequestInfallibly (\<lambda>rpc. fst (routeFromTransportInfallibly answerRouter rpc))
     \<lparr>header = [''x-simplycall-id'' \<mapsto> ''s r'', ''x-simplycall-argtype'' \<mapsto> ''j''],
      formData = Inr ([(''0'', EString ''5'')] @ [(''1'', EString ''oops''), (''7'', EFile [1])] @ [])\<rparr> () =
   onRequestInfallibly (\<lambda>rpc. fst (routeFromTransportInfallibly answerRouter rpc))
     \<lparr>header = [''x-simplycall-id'' \<mapsto> ''s r'', ''x-simplycall-argtype'' \<mapsto> ''j''],
      formData = Inr ([(''0'', EString ''5'')] @ [])\<rparr> ()"
proof -
  let ?request = "\<lparr>header = [''x-simplycall-id'' \<mapsto> ''s r'', ''x-simplycall-argtype'' \<mapsto> ''j''],
                   formData = Inr []\<rparr>"
  have h: "header ?request ''x-simplycall-argtype'' = Some ''j''" by simp
  have s1: "''1'' = showNat 1" and s7: "''7'' = showNat 7" and s0: "showNat 0 = ''0''"
    by code_simp+
  have "\<exists>j \<ge> length ''j''. ''1'' = showNat j" using s1 by (intro exI[of _ 1]) simp
  moreover have "\<exists>j \<ge> length ''j''. ''7'' = showNat j" using s7 by (intro exI[of _ 7]) simp
  ultimately have e: "\<forall>(k, e) \<in> set [(''1'', EString ''oops''), (''7'', EFile [1 :: byte])].
      \<exists>j \<ge> length ''j''. k = showNat j"
    by simp
  have d: "decodeArgs ''s r'' ''j'' ([(''0'', EString ''5'')] @ []) (zip ''j'' [0..<length ''j'']) [] =
             Args [JNum 5]"
    by code_simp
  note t = extra_parts_ignored[OF h e, of "[(''0'', EString ''5'')]" "[]"
             "\<lambda>rpc. fst (routeFromTransportInfallibly answerRouter rpc)" "()"]
  have t1: "decodeArgs ''s r'' ''j'' ([(''0'', EString ''5'')] @ [(''1'', EString ''oops''), (''7'', EFile [1])] @ [])
              (zip ''j'' [0..<length ''j'']) [] =
            decodeArgs ''s r'' ''j'' ([(''0'', EString ''5'')] @ []) (zip ''j'' [0..<length ''j'']) []"
    using t by blast
  have t2: "onRequestInfallibly (\<lambda>rpc. fst (routeFromTransportInfallibly answerRouter rpc))
       (?request\<lparr>formData := Inr ([(''0'', EString ''5'')] @ [(''1'', EString ''oops''), (''7'', EFile [1])] @ [])\<rparr>) () =
     onRequestInfallibly (\<lambda>rpc. fst (routeFromTransportInfallibly answerRouter rpc))
       (?request\<lparr>formData := Inr ([(''0'', EString ''5'')] @ [])\<rparr>) ()"
    using t by blast
  show ?thesis
    apply (intro conjI)
         apply (rule h)
        apply (rule s1)
       apply (rule s7)
      apply (rule t1)
     apply (rule d)
    using t2 apply simp
    done
qed

end
